theory Spec2Isabelle
  imports Main "HOL-Library.Sublist"
begin

section \<open>Python values used by krux-installer.py\<close>

text \<open>
  Strings are \<open>string\<close> (lists of 8-bit characters). Exceptions are values of the
  datatype \<open>error\<close>: the two classes the orchestrator and the flasher tests raise by name
  (\<open>RuntimeError\<close>, \<open>ValueError\<close>, each with its message), \<open>EOFError\<close> of
  \<open>input()\<close> on an exhausted standard input, \<open>UnsupportedDeviceError\<close>, the name the
  specification gives to the rejection of an unknown device (with the message of the
  exception), and \<open>Raised name\<close> for any exception that comes out of a collaborator
  (downloader, verifier, unzip, flasher).
\<close>

datatype error =
    RuntimeError string
  | ValueError string
  | EOFError
  | UnsupportedDeviceError string
  | Raised string

text \<open>\<open>sep.join(xs)\<close> of Python.\<close>

fun join :: "string \<Rightarrow> string list \<Rightarrow> string" where
  "join sep [] = []"
| "join sep [x] = x"
| "join sep (x # y # ys) = x @ sep @ join sep (y # ys)"

text \<open>\<open>xs[i:j]\<close> of Python for indices \<open>0 \<le> i\<close>, \<open>0 \<le> j\<close>: a slice never raises.\<close>

definition slice :: "'a list \<Rightarrow> nat \<Rightarrow> nat \<Rightarrow> 'a list" where
  "slice xs i j = drop i (take j xs)"

text \<open>
  An optional command-line value (\<open>None\<close> when the option is absent). \<open>truthy\<close> is the
  truth value Python gives it in a condition, \<open>text_of\<close> the text an f-string renders.
\<close>

fun truthy :: "string option \<Rightarrow> bool" where
  "truthy None = False"
| "truthy (Some s) = (s \<noteq> [])"

fun text_of :: "string option \<Rightarrow> string" where
  "text_of None = ''None''"
| "text_of (Some s) = s"

subsection \<open>The regular expressions of the orchestrator\<close>

text \<open>
  The two patterns given to \<open>re.findall\<close> are sequences of items, each a literal
  character or \<open>\d\<close>, taken once or one-or-more times (\<open>+\<close>). On 8-bit characters
  \<open>\d\<close> is \<open>0\<close> to \<open>9\<close>.

  \<open>match_rest p s\<close> is the backtracking matcher anchored at the start of \<open>s\<close>: the
  text left after the match it finds first (a \<open>+\<close> item takes as many characters as possible
  and gives back only when the rest of the pattern fails), or \<open>None\<close>.
  \<open>re_findall p s\<close> scans from the left and returns the non-overlapping matches in order,
  as \<open>re.findall\<close> does for a pattern with no group.
\<close>

datatype atom = Lit char | Digit

datatype item = One atom | Plus atom

type_synonym pattern = "item list"

definition is_digit :: "char \<Rightarrow> bool" where
  "is_digit c = (c \<in> set ''0123456789'')"

fun atom_ok :: "atom \<Rightarrow> char \<Rightarrow> bool" where
  "atom_ok (Lit a) c = (c = a)"
| "atom_ok Digit c = is_digit c"

fun match_rest :: "pattern \<Rightarrow> string \<Rightarrow> string option" where
  "match_rest [] s = Some s"
| "match_rest (One a # p) [] = None"
| "match_rest (One a # p) (c # s) = (if atom_ok a c then match_rest p s else None)"
| "match_rest (Plus a # p) [] = None"
| "match_rest (Plus a # p) (c # s) =
     (if atom_ok a c
      then (case match_rest (Plus a # p) s of
              Some r \<Rightarrow> Some r
            | None \<Rightarrow> match_rest p s)
      else None)"

function re_findall :: "pattern \<Rightarrow> string \<Rightarrow> string list" where
  "re_findall p s =
     (case match_rest p s of
        None \<Rightarrow> (case s of [] \<Rightarrow> [] | c # t \<Rightarrow> re_findall p t)
      | Some r \<Rightarrow>
          (if length r < length s
           then take (length s - length r) s # re_findall p r
           else [] # (case s of [] \<Rightarrow> [] | c # t \<Rightarrow> re_findall p t)))"
  by pat_completeness auto
termination
  by (relation "measure (\<lambda>(p, s). length s)") auto

declare re_findall.simps [simp del]

text \<open>The pattern \<open>r"odudex/krux_binaries"\<close> (line 286): every character is a literal.\<close>

definition BETA_PATTERN :: pattern where
  "BETA_PATTERN = map (\<lambda>c. One (Lit c)) ''odudex/krux_binaries''"

text \<open>The pattern \<open>r"v2\d\.\d+\.\d+"\<close> (line 334).\<close>

definition OFFICIAL_PATTERN :: pattern where
  "OFFICIAL_PATTERN =
     [One (Lit CHR ''v''), One (Lit CHR ''2''), One Digit,
      One (Lit CHR ''.''), Plus Digit,
      One (Lit CHR ''.''), Plus Digit]"

text \<open>
  The guards of lines 286 and 334, an \<open>if\<close> and its \<open>elif\<close>: which artifact set a
  firmware-version string selects.
\<close>

datatype artifact_set = Beta | Official | Neither

definition selected :: "string \<Rightarrow> artifact_set" where
  "selected v =
     (if re_findall BETA_PATTERN v \<noteq> [] then Beta
      else if re_findall OFFICIAL_PATTERN v \<noteq> [] then Official
      else Neither)"

text \<open>What a pattern matches, said without an algorithm.\<close>

fun item_matches :: "item \<Rightarrow> string \<Rightarrow> bool" where
  "item_matches (One a) m = (case m of [c] \<Rightarrow> atom_ok a c | _ \<Rightarrow> False)"
| "item_matches (Plus a) m = (m \<noteq> [] \<and> list_all (atom_ok a) m)"

fun matches :: "pattern \<Rightarrow> string \<Rightarrow> bool" where
  "matches [] m = (m = [])"
| "matches (i # p) m =
     (\<exists>k \<le> length m. item_matches i (take k m) \<and> matches p (drop k m))"

definition occurs :: "pattern \<Rightarrow> string \<Rightarrow> bool" where
  "occurs p s = (\<exists>pre m post. s = pre @ m @ post \<and> matches p m)"

text \<open>
  The two patterns in words: the marker of the beta channel, and an official tag, which is
  the letter \<open>v\<close>, the digit \<open>2\<close>, one digit, a dot, one or more digits, a dot, one or more
  digits.
\<close>

definition BETA_MARKER :: string where
  "BETA_MARKER = ''odudex/krux_binaries''"

definition official_tag :: "string \<Rightarrow> bool" where
  "official_tag m =
     (\<exists>d ds1 ds2. m = ''v2'' @ [d] @ ''.'' @ ds1 @ ''.'' @ ds2
        \<and> is_digit d \<and> ds1 \<noteq> [] \<and> list_all is_digit ds1
        \<and> ds2 \<noteq> [] \<and> list_all is_digit ds2)"

definition has_official_tag :: "string \<Rightarrow> bool" where
  "has_official_tag v = (\<exists>pre m post. v = pre @ m @ post \<and> official_tag m)"


section \<open>The orchestrator and its collaborators\<close>

text \<open>
  The model is of the body of the guard of line 33 of \<open>krux-installer.py\<close>: a process
  started under the name \<open>krux-installer\<close>. The modules the orchestrator imports
  (\<open>src.utils.selector\<close>, \<open>downloader\<close>, \<open>verifyer\<close>, \<open>unzip\<close>, \<open>flasher\<close>,
  \<open>constants\<close>) and the operating system are taken as parameters, the record \<open>env\<close>. A
  collaborator sees and changes only the disk, of a type \<open>'d\<close> left open; it returns a
  value or raises.
\<close>

text \<open>
  The downloaders and the two unzip classes, each with the arguments of its constructor:
  \<open>version\<close> and \<open>destdir\<close>; \<open>destdir\<close>; \<open>device\<close>, \<open>binary_type\<close> and \<open>destdir\<close>;
  \<open>filename\<close>, \<open>device\<close> and \<open>output\<close>.
\<close>

datatype request =
    ZipDownloader string string
  | Sha256Downloader string string
  | SigDownloader string string
  | PemDownloader string
  | BetaDownloader string string string

datatype unzip = KbootUnzip string string string | FirmwareUnzip string string string

text \<open>
  What a run does, in order: lines printed, prompts of \<open>input()\<close>, and the calls of
  collaborators. An event is recorded when the call is made, whatever comes back. A
  verification event carries the file verified (and the certificate) and what came back:
  true, false or an exception. \<open>Flash f\<close> is the pair of statements
  \<open>flasher = Flasher(firmware=f)\<close>, \<open>flasher.flash()\<close>; \<open>Wipe\<close> is \<open>w = Wiper()\<close>,
  \<open>w.wipe()\<close>; \<open>Releases\<close> is the reading of \<open>Selector().releases\<close>.
\<close>

datatype event =
    Print string
  | Input string
  | Releases
  | Download request
  | VerifySha256 string "error + bool"
  | VerifySig string string "error + bool"
  | Unzip unzip
  | Flash string
  | Wipe

text \<open>
  \<open>sha256_verifyer filename sidecar\<close> stands for the two verifier objects of
  \<open>verify_sha256sum\<close>: constructing and loading them raises, or gives the digest computed
  and the digest expected, and then \<open>verify\<close> raises or answers. \<open>sig_verifyer filename
  signature pemfile\<close> stands for the three objects of \<open>verify_sig\<close>. \<open>selector_releases\<close>
  is the versions the generator yields and the exception that ends it, if any.
\<close>

record 'd env =
  platform :: string
  path_exists :: "'d \<Rightarrow> string \<Rightarrow> bool"
  get_version :: string
  VALID_DEVICES :: "string list"
  selector_releases :: "string list \<times> error option"
  download :: "request \<Rightarrow> 'd \<Rightarrow> (error + string) \<times> 'd"
  sha256_verifyer ::
    "string \<Rightarrow> string \<Rightarrow> 'd \<Rightarrow> error + (string \<times> string \<times> (error + bool))"
  sig_verifyer :: "string \<Rightarrow> string \<Rightarrow> string \<Rightarrow> 'd \<Rightarrow> error + bool"
  unzip_load :: "unzip \<Rightarrow> 'd \<Rightarrow> (error + unit) \<times> 'd"
  flasher_flash :: "string \<Rightarrow> 'd \<Rightarrow> error + unit"
  wiper_wipe :: "'d \<Rightarrow> error + unit"

text \<open>The parsed command line (lines 57 to 110).\<close>

record args =
  version :: bool
  available_firmwares :: bool
  available_devices :: bool
  firmware_device :: "string option"
  firmware_version :: "string option"
  destdir :: string
  flash :: bool
  wipe :: bool

record 'd world =
  disk :: 'd
  stdin :: "string list"
  trace :: "event list"

type_synonym ('d, 'a) io = "'d world \<Rightarrow> (error + 'a) \<times> 'd world"

definition ret :: "'a \<Rightarrow> ('d, 'a) io" where
  "ret a w = (Inr a, w)"

definition raise :: "error \<Rightarrow> ('d, 'a) io" where
  "raise e w = (Inl e, w)"

definition bnd :: "('d, 'a) io \<Rightarrow> ('a \<Rightarrow> ('d, 'b) io) \<Rightarrow> ('d, 'b) io" where
  "bnd m f w = (case m w of (Inl e, w') \<Rightarrow> (Inl e, w') | (Inr a, w') \<Rightarrow> f a w')"

definition seq :: "('d, 'a) io \<Rightarrow> ('d, 'b) io \<Rightarrow> ('d, 'b) io" where
  "seq m n = bnd m (\<lambda>_. n)"

fun block :: "('d, unit) io list \<Rightarrow> ('d, unit) io" where
  "block [] = ret ()"
| "block (m # ms) = seq m (block ms)"

definition emit :: "event \<Rightarrow> ('d, unit) io" where
  "emit e w = (Inr (), w\<lparr>trace := trace w @ [e]\<rparr>)"

text \<open>
  \<open>print\<close>. A message is recorded without the pictograph that opens it in the source and
  without the blank after the pictograph.
\<close>

definition print :: "string \<Rightarrow> ('d, unit) io" where
  "print msg = emit (Print msg)"

text \<open>\<open>input(prompt)\<close>: the next line of standard input, \<open>EOFError\<close> when there is none.\<close>

definition input :: "string \<Rightarrow> ('d, string) io" where
  "input prompt w =
     (case stdin w of
        [] \<Rightarrow> (Inl EOFError, w\<lparr>trace := trace w @ [Input prompt]\<rparr>)
      | a # rest \<Rightarrow> (Inr a, w\<lparr>stdin := rest, trace := trace w @ [Input prompt]\<rparr>))"

definition os_path_exists :: "'d env \<Rightarrow> string \<Rightarrow> ('d, bool) io" where
  "os_path_exists env p w = (Inr (path_exists env (disk w) p), w)"

definition call_download :: "'d env \<Rightarrow> request \<Rightarrow> ('d, string) io" where
  "call_download env rq w =
     (case download env rq (disk w) of
        (r, d) \<Rightarrow> (r, w\<lparr>disk := d, trace := trace w @ [Download rq]\<rparr>))"

definition call_unzip :: "'d env \<Rightarrow> unzip \<Rightarrow> ('d, unit) io" where
  "call_unzip env u w =
     (case unzip_load env u (disk w) of
        (r, d) \<Rightarrow> (r, w\<lparr>disk := d, trace := trace w @ [Unzip u]\<rparr>))"

definition call_flash :: "'d env \<Rightarrow> string \<Rightarrow> ('d, unit) io" where
  "call_flash env firmware w =
     (flasher_flash env firmware (disk w), w\<lparr>trace := trace w @ [Flash firmware]\<rparr>)"

definition call_wipe :: "'d env \<Rightarrow> ('d, unit) io" where
  "call_wipe env w = (wiper_wipe env (disk w), w\<lparr>trace := trace w @ [Wipe]\<rparr>)"

subsection \<open>The nested functions of the firmware branch (lines 139 to 284)\<close>

definition download_zip :: "'d env \<Rightarrow> args \<Rightarrow> ('d, string) io" where
  "download_zip env args =
     seq (print [])
    (seq (print (''Downloading '' @ destdir args @ ''/krux-''
                 @ text_of (firmware_version args) @ ''.zip release''))
         (call_download env
            (ZipDownloader (text_of (firmware_version args)) (destdir args))))"

definition download_zip_sha256sum :: "'d env \<Rightarrow> args \<Rightarrow> ('d, string) io" where
  "download_zip_sha256sum env args =
     seq (print [])
    (seq (print (''Downloading '' @ destdir args @ ''/krux-''
                 @ text_of (firmware_version args) @ ''.zip.sha256.txt''))
         (call_download env
            (Sha256Downloader (text_of (firmware_version args)) (destdir args))))"

definition download_zip_sig :: "'d env \<Rightarrow> args \<Rightarrow> ('d, string) io" where
  "download_zip_sig env args =
     seq (print [])
    (seq (print (''Downloading '' @ destdir args @ ''/krux-''
                 @ text_of (firmware_version args) @ ''.zip.sig''))
         (call_download env
            (SigDownloader (text_of (firmware_version args)) (destdir args))))"

definition download_pem :: "'d env \<Rightarrow> args \<Rightarrow> ('d, string) io" where
  "download_pem env args =
     seq (print [])
    (seq (print (''Downloading '' @ destdir args @ ''/selfcustody.pem''))
         (call_download env (PemDownloader (destdir args))))"

definition verify_sha256sum :: "'d env \<Rightarrow> string \<Rightarrow> ('d, bool) io" where
  "verify_sha256sum env filename =
     seq (print [])
    (seq (print ('' Verifying '' @ filename @ ''.zip with '' @ filename @ ''.sha256.txt''))
         (\<lambda>w. case sha256_verifyer env filename (filename @ ''.sha256.txt'') (disk w) of
                 Inl e \<Rightarrow> seq (emit (VerifySha256 filename (Inl e))) (raise e) w
               | Inr (data, expected, verdict) \<Rightarrow>
                   seq (print (''sha256sum: '' @ data))
                  (seq (print (''expected:  '' @ expected))
                  (seq (emit (VerifySha256 filename verdict))
                       (case verdict of Inl e \<Rightarrow> raise e | Inr ok \<Rightarrow> ret ok))) w))"

definition verify_sig :: "'d env \<Rightarrow> string \<Rightarrow> string \<Rightarrow> ('d, bool) io" where
  "verify_sig env filename pemfile =
     seq (print [])
    (seq (print ('' Verifying '' @ filename @ '' with '' @ filename @ ''.sig and '' @ pemfile))
         (\<lambda>w. case sig_verifyer env filename (filename @ ''.sig'') pemfile (disk w) of
                 Inl e \<Rightarrow> seq (emit (VerifySig filename pemfile (Inl e))) (raise e) w
               | Inr ok \<Rightarrow> seq (emit (VerifySig filename pemfile (Inr ok))) (ret ok) w))"

text \<open>
  \<open>download_and_verify\<close> (lines 203 to 262). The blocks of its body are named, one
  definition for each, in the order of the source: the archive (lines 205 to 217), the
  digest (219 to 228), the signature (230 to 239), the certificate (241 to 252) and the
  two verifications (254 to 262).
\<close>

definition FIRMWARE_NAME_zip :: "args \<Rightarrow> string" where
  "FIRMWARE_NAME_zip args =
     destdir args @ ''/krux-'' @ text_of (firmware_version args) @ ''.zip''"

definition ensure_zip :: "'d env \<Rightarrow> args \<Rightarrow> ('d, string) io" where
  "ensure_zip env args =
     seq (print [])
    (seq (print (''Verifying '' @ FIRMWARE_NAME_zip args))
    (bnd (os_path_exists env (FIRMWARE_NAME_zip args)) (\<lambda>present.
       if \<not> present then download_zip env args
       else bnd (input (''i Do you want to download '' @ FIRMWARE_NAME_zip args
                        @ '' again? [y/n]'')) (\<lambda>answer.
              if answer = ''y'' then download_zip env args
              else ret (destdir args @ ''/krux-'' @ text_of (firmware_version args)
                        @ ''.zip'')))))"

definition ensure_sha256 :: "'d env \<Rightarrow> args \<Rightarrow> ('d, unit) io" where
  "ensure_sha256 env args =
     seq (print [])
    (seq (print (''Verifying '' @ FIRMWARE_NAME_zip args @ ''.sha256.txt''))
    (bnd (os_path_exists env (FIRMWARE_NAME_zip args @ ''.sha256.txt'')) (\<lambda>present.
       if \<not> present then seq (download_zip_sha256sum env args) (ret ())
       else bnd (input ('' Do you want to download '' @ FIRMWARE_NAME_zip args
                        @ ''.sha256.txt again? [y/n]'')) (\<lambda>answer.
              if answer = ''y'' then seq (download_zip_sha256sum env args) (ret ())
              else ret ()))))"

definition ensure_sig :: "'d env \<Rightarrow> args \<Rightarrow> ('d, unit) io" where
  "ensure_sig env args =
     seq (print [])
    (seq (print (''Verifying '' @ FIRMWARE_NAME_zip args @ ''.sig''))
    (bnd (os_path_exists env (FIRMWARE_NAME_zip args @ ''.sig'')) (\<lambda>present.
       if \<not> present then seq (download_zip_sig env args) (ret ())
       else bnd (input ('' Do you want to download '' @ FIRMWARE_NAME_zip args
                        @ ''.sig again? [y/n]'')) (\<lambda>answer.
              if answer = ''y'' then seq (download_zip_sig env args) (ret ())
              else ret ()))))"

definition ensure_pem :: "'d env \<Rightarrow> args \<Rightarrow> ('d, string) io" where
  "ensure_pem env args =
     seq (print [])
    (seq (print (''Verifying '' @ destdir args @ ''/selfcustody.pem''))
    (bnd (os_path_exists env (destdir args @ ''/selfcustody.pem'')) (\<lambda>present.
       if \<not> present then download_pem env args
       else bnd (input ('' Do you want to download '' @ destdir args
                        @ ''/selfcustody.pem again? [y/n]'')) (\<lambda>answer.
              if answer = ''y'' then download_pem env args
              else ret (destdir args @ ''/selfcustody.pem'')))))"

text \<open>
  The two verifications, on the values the body has bound to \<open>zipd\<close> and \<open>pemfile\<close>.
\<close>

definition verify_downloaded :: "'d env \<Rightarrow> string \<Rightarrow> string \<Rightarrow> ('d, string) io" where
  "verify_downloaded env zipd pemfile =
     bnd (verify_sha256sum env zipd) (\<lambda>ok.
     seq (if \<not> ok then raise (RuntimeError ''Invalid sha256sum'') else ret ())
    (seq (print ''Sha256sum Verified Sucessfully'')
    (bnd (verify_sig env zipd pemfile) (\<lambda>ok.
     seq (if \<not> ok then raise (RuntimeError ''Invalid signature'') else ret ())
    (seq (print ''Signature Verified Successfully'')
         (ret zipd))))))"

definition download_and_verify :: "'d env \<Rightarrow> args \<Rightarrow> ('d, string) io" where
  "download_and_verify env args =
     bnd (ensure_zip env args) (\<lambda>zipd.
     seq (ensure_sha256 env args)
    (seq (ensure_sig env args)
    (bnd (ensure_pem env args) (\<lambda>pemfile.
         verify_downloaded env zipd pemfile))))"

definition download_kboot_beta :: "'d env \<Rightarrow> args \<Rightarrow> ('d, unit) io" where
  "download_kboot_beta env args =
     seq (print (''Downloading firmware to '' @ destdir args @ ''/kboot.kfpkg''))
    (seq (call_download env
            (BetaDownloader (text_of (firmware_device args)) ''kboot.kfpkg'' (destdir args)))
         (print []))"

definition download_bin_beta :: "'d env \<Rightarrow> args \<Rightarrow> ('d, unit) io" where
  "download_bin_beta env args =
     seq (print (''Downloading firmware to '' @ destdir args @ ''/firmware.bin''))
    (seq (call_download env
            (BetaDownloader (text_of (firmware_device args)) ''firmware.bin'' (destdir args)))
         (print []))"

subsection \<open>The flash targets\<close>

text \<open>
  The beta targets (lines 288 and 312) and the targets after extraction (lines 345 to 352
  and 370 to 377).
\<close>

definition KBOOT_NAME_beta :: "args \<Rightarrow> string" where
  "KBOOT_NAME_beta args = destdir args @ ''/kboot.kfpkg''"

definition FIRMWARE_NAME_beta :: "args \<Rightarrow> string" where
  "FIRMWARE_NAME_beta args = destdir args @ ''/firmware.bin''"

definition KBOOT_NAME :: "args \<Rightarrow> string" where
  "KBOOT_NAME args =
     join ''/''
       [destdir args,
        ''krux-'' @ text_of (firmware_version args),
        ''/maixpy_'' @ text_of (firmware_device args),
        ''kboot.kfpkg'']"

definition FIRMWARE_NAME :: "args \<Rightarrow> string" where
  "FIRMWARE_NAME args =
     join ''/''
       [destdir args,
        ''krux-'' @ text_of (firmware_version args),
        ''/maixpy_'' @ text_of (firmware_device args),
        ''firmware.bin'']"

subsection \<open>The branches on the firmware version (lines 286 to 381)\<close>

text \<open>
  The existence checks of the beta branch (lines 288 to 303 and 312 to 328), named like
  those of \<open>download_and_verify\<close>.
\<close>

definition ensure_kboot_beta :: "'d env \<Rightarrow> args \<Rightarrow> ('d, unit) io" where
  "ensure_kboot_beta env args =
     seq (print [])
    (seq (print (''Verifying '' @ KBOOT_NAME_beta args))
    (bnd (os_path_exists env (KBOOT_NAME_beta args)) (\<lambda>present.
       if \<not> present then download_kboot_beta env args
       else bnd (input (join '' ''
                   ['' Do you want to download '' @ KBOOT_NAME_beta args @ '' for'',
                    [CHR 0x27] @ text_of (firmware_device args) @ [CHR 0x27]
                      @ '' again? [y/n]''])) (\<lambda>answer.
              if answer = ''y'' then download_kboot_beta env args
              else ret ()))))"

definition ensure_bin_beta :: "'d env \<Rightarrow> args \<Rightarrow> ('d, unit) io" where
  "ensure_bin_beta env args =
     seq (print [])
    (seq (print (''Verifying '' @ FIRMWARE_NAME_beta args))
    (bnd (os_path_exists env (FIRMWARE_NAME_beta args)) (\<lambda>present.
       if \<not> present then download_bin_beta env args
       else bnd (input (join '' ''
                   ['' Do you want to download '' @ FIRMWARE_NAME_beta args @ '' for'',
                    [CHR 0x27] @ text_of (firmware_device args) @ [CHR 0x27]
                      @ '' again? [y/n]''])) (\<lambda>answer.
              if answer = ''y'' then download_bin_beta env args
              else ret ()))))"

definition connect_prompt :: "args \<Rightarrow> string" where
  "connect_prompt args =
     ''Please connect your '' @ [CHR 0x27] @ text_of (firmware_device args) @ [CHR 0x27]
       @ '' and press enter''"

definition beta_branch :: "'d env \<Rightarrow> args \<Rightarrow> ('d, unit) io" where
  "beta_branch env args =
     (if flash args then
        seq (ensure_kboot_beta env args)
       (seq (print [])
       (seq (print (''/ Flashing firmware from '' @ KBOOT_NAME_beta args))
       (seq (input (connect_prompt args))
            (call_flash env (KBOOT_NAME_beta args)))))
      else
        seq (ensure_bin_beta env args)
            (print (''Copy '' @ FIRMWARE_NAME_beta args @ '' for '' @ [CHR 0x27]
                    @ text_of (firmware_device args) @ [CHR 0x27] @ '' to your SDCard'')))"

definition official_branch :: "'d env \<Rightarrow> args \<Rightarrow> ('d, unit) io" where
  "official_branch env args =
     (if flash args then
        bnd (download_and_verify env args) (\<lambda>ZIPFILE.
        seq (print [])
       (seq (print (''Unzipping '' @ ZIPFILE @ '' for '' @ text_of (firmware_device args)))
       (seq (call_unzip env
               (KbootUnzip ZIPFILE (text_of (firmware_device args)) (destdir args)))
       (seq (print [])
       (seq (print ('' Flashing '' @ text_of (firmware_version args) @ '' for ''
                    @ text_of (firmware_device args)))
       (seq (input (connect_prompt args))
            (call_flash env (KBOOT_NAME args))))))))
      else
        bnd (download_and_verify env args) (\<lambda>ZIPFILE.
        seq (print [])
       (seq (print (''Unzipping '' @ ZIPFILE @ '' for '' @ text_of (firmware_device args)))
       (seq (call_unzip env
               (FirmwareUnzip ZIPFILE (text_of (firmware_device args)) (destdir args)))
       (seq (print [])
       (seq (print (''Copy '' @ FIRMWARE_NAME args @ '' to your SDCard''))
            (print (''Copy '' @ FIRMWARE_NAME args @ ''.sig to your SDCard''))))))))"

definition firmware_branch :: "'d env \<Rightarrow> args \<Rightarrow> ('d, unit) io" where
  "firmware_branch env args =
     (if re_findall BETA_PATTERN (text_of (firmware_version args)) \<noteq> []
      then beta_branch env args
      else if re_findall OFFICIAL_PATTERN (text_of (firmware_version args)) \<noteq> []
      then official_branch env args
      else ret ())"

subsection \<open>The dispatch on the options (lines 59 to 134)\<close>

definition list_releases :: "'d env \<Rightarrow> ('d, unit) io" where
  "list_releases env =
     seq (emit Releases)
    (seq (block (map (\<lambda>v. print (''* '' @ v)) (fst (selector_releases env))))
         (case snd (selector_releases env) of None \<Rightarrow> ret () | Some e \<Rightarrow> raise e))"

definition list_devices :: "'d env \<Rightarrow> ('d, unit) io" where
  "list_devices env =
     block (map (\<lambda>device. print (''* '' @ device))
              (slice (VALID_DEVICES env) 1 (length (VALID_DEVICES env))))"

definition main :: "'d env \<Rightarrow> args \<Rightarrow> ('d, unit) io" where
  "main env args =
     (if version args then print (get_version env)
      else if available_firmwares args then list_releases env
      else if available_devices args then list_devices env
      else if wipe args then
        seq (print ''Wiping firmware and data. Please be patient and wait until process finish.'')
            (call_wipe env)
      else if truthy (firmware_device args) \<and> \<not> truthy (firmware_version args) then
        raise (RuntimeError
                 ''--firmware-device should be paired with --firmware-version option'')
      else if truthy (firmware_device args) \<and> truthy (firmware_version args) then
        firmware_branch env args
      else ret ())"

definition supported_platforms :: "string list" where
  "supported_platforms = [''linux'', ''darwin'', ''freebsd'', ''win32'']"

definition krux_installer :: "'d env \<Rightarrow> args \<Rightarrow> ('d, unit) io" where
  "krux_installer env args =
     (if platform env \<in> set supported_platforms then main env args
      else raise (RuntimeError (''Not implementated for '' @ platform env)))"

text \<open>A run starts with nothing done yet.\<close>

definition run :: "'d env \<Rightarrow> args \<Rightarrow> 'd \<Rightarrow> string list \<Rightarrow> (error + unit) \<times> 'd world" where
  "run env args d answers = krux_installer env args \<lparr>disk = d, stdin = answers, trace = []\<rparr>"

section \<open>The flasher's attributes\<close>

text \<open>
  Modelled from the spec: the class \<open>BaseFlasher\<close> of \<open>src/utils/flasher/base_flasher.py\<close>,
  which is not among the sources; only its tests are (\<open>tests/test_023_base_flasher.py\<close>).
  Of its state the firmware path is kept, unset in a new flasher.
\<close>

record base_flasher =
  firmware :: "string option"

definition BaseFlasher :: base_flasher where
  "BaseFlasher = \<lparr>firmware = None\<rparr>"

text \<open>
  Modelled from the spec: the firmware setter of the missing \<open>BaseFlasher\<close>. It asks
  \<open>os.path.exists\<close> (the parameter \<open>exists\<close>) for the value assigned, raises
  \<open>ValueError("File do not exist: <value>")\<close> when the answer is no (lines 11 to 26 of the
  tests) and keeps the value otherwise.
\<close>

definition set_firmware :: "(string \<Rightarrow> bool) \<Rightarrow> base_flasher \<Rightarrow> string \<Rightarrow> error + base_flasher" where
  "set_firmware exists b v =
     (if \<not> exists v then Inl (ValueError (''File do not exist: '' @ v))
      else Inr (b\<lparr>firmware := Some v\<rparr>))"

text \<open>
  A sequence of assignments to the same flasher. An assignment that raises leaves the
  attribute as it was.
\<close>

fun assign_all :: "(string \<Rightarrow> bool) \<Rightarrow> base_flasher \<Rightarrow> string list \<Rightarrow> base_flasher" where
  "assign_all exists b [] = b"
| "assign_all exists b (v # vs) =
     (case set_firmware exists b v of
        Inl e \<Rightarrow> assign_all exists b vs
      | Inr b' \<Rightarrow> assign_all exists b' vs)"

text \<open>
  Modelled from the spec: the vendor-ID class of a device, which in the code is decided by
  the port setter of the missing \<open>BaseFlasher\<close>. The table is the one the tests assert: the
  argument they see \<open>list_ports.grep\<close> called with (lines 28 to 97). An identifier outside
  the table is rejected with the specification's \<open>UnsupportedDeviceError\<close>; the tests show
  that the setter raises it as a \<open>ValueError\<close> with the message
  \<open>Device not implemented: <identifier>\<close>.
\<close>

definition usb_vendor_id :: "string \<Rightarrow> error + string" where
  "usb_vendor_id device =
     (if device \<in> set [''amigo'', ''amigo_tft'', ''amigo_ips'', ''m5stickv'', ''bit'', ''cube'']
      then Inr ''0403''
      else if device \<in> set [''dock'', ''yahboom''] then Inr ''7523''
      else Inl (UnsupportedDeviceError (''Device not implemented: '' @ device)))"

text \<open>
  Modelled from the spec: the board codename of a device, which in the code is decided by
  the board setter of the missing \<open>BaseFlasher\<close>. The table is the value the tests read
  back from the attribute (lines 99 to 143); the rejection is as for the port.
\<close>

definition board_codename :: "string \<Rightarrow> error + string" where
  "board_codename device =
     (if device \<in> set [''amigo'', ''amigo_tft'', ''amigo_ips'', ''m5stickv'', ''bit'',
                       ''yahboom'', ''cube'']
      then Inr ''goE''
      else if device = ''dock'' then Inr ''dan''
      else Inl (UnsupportedDeviceError (''Device not implemented: '' @ device)))"

text \<open>
  Modelled from the spec: the lookup of the DeviceCatalog, which has no function of its own
  in the code. Given a device identifier it returns the vendor-ID class and the codename,
  or fails as the two setters do.
\<close>

definition device_lookup :: "string \<Rightarrow> error + (string \<times> string)" where
  "device_lookup device =
     (case usb_vendor_id device of
        Inl e \<Rightarrow> Inl e
      | Inr vid \<Rightarrow>
          (case board_codename device of
             Inl e \<Rightarrow> Inl e
           | Inr codename \<Rightarrow> Inr (vid, codename)))"

text \<open>The closed set of device identifiers of the specification.\<close>

definition DEVICES :: "string list" where
  "DEVICES =
     [''amigo'', ''amigo_tft'', ''amigo_ips'', ''m5stickv'', ''bit'', ''dock'', ''yahboom'',
      ''cube'']"

section \<open>Properties of traces\<close>

text \<open>
  \<open>emits P m\<close>: whatever the world, the computation \<open>m\<close> only adds events to the trace, and
  every event it adds satisfies \<open>P\<close>.
\<close>

definition emits :: "(event \<Rightarrow> bool) \<Rightarrow> ('d, 'a) io \<Rightarrow> bool" where
  "emits P m =
     (\<forall>w r w'. m w = (r, w') \<longrightarrow> (\<exists>ev. trace w' = trace w @ ev \<and> list_all P ev))"

text \<open>The events of fetching: lines printed, prompts, downloads.\<close>

fun fetching :: "event \<Rightarrow> bool" where
  "fetching (Print msg) = True"
| "fetching (Input prompt) = True"
| "fetching (Download rq) = True"
| "fetching e = False"


fun is_verification :: "event \<Rightarrow> bool" where
  "is_verification (VerifySha256 f r) = True"
| "is_verification (VerifySig f p r) = True"
| "is_verification e = False"


text \<open>The events of a trace that are not events of fetching, in order.\<close>

definition milestones :: "event list \<Rightarrow> event list" where
  "milestones ev = filter (\<lambda>e. \<not> fetching e) ev"

text \<open>
  \<open>verified z p r ms\<close>: the ways the two verifications of the archive \<open>z\<close> with the
  certificate \<open>p\<close> can go, with the result \<open>r\<close> and the milestones \<open>ms\<close> of each.
\<close>

inductive verified :: "string \<Rightarrow> string \<Rightarrow> error + string \<Rightarrow> event list \<Rightarrow> bool"
  for z :: string and p :: string where
  sha_raised: "verified z p (Inl e) [VerifySha256 z (Inl e)]"
| sha_mismatch:
    "verified z p (Inl (RuntimeError ''Invalid sha256sum'')) [VerifySha256 z (Inr False)]"
| sig_raised: "verified z p (Inl e) [VerifySha256 z (Inr True), VerifySig z p (Inl e)]"
| sig_mismatch:
    "verified z p (Inl (RuntimeError ''Invalid signature''))
       [VerifySha256 z (Inr True), VerifySig z p (Inr False)]"
| both_passed: "verified z p (Inr z) [VerifySha256 z (Inr True), VerifySig z p (Inr True)]"

text \<open>
  \<open>official_run args r ms\<close>: the ways the branch of an official release can go, with the
  result \<open>r\<close> and the milestones \<open>ms\<close> of each.
\<close>

inductive official_run :: "args \<Rightarrow> error + unit \<Rightarrow> event list \<Rightarrow> bool"
  for args :: args where
  fetch_failed: "official_run args (Inl e) []"
| not_verified: "verified z p (Inl e) ms \<Longrightarrow> official_run args (Inl e) ms"
| extracted_kboot:
    "flash args \<Longrightarrow>
     official_run args (Inl e)
       [VerifySha256 z (Inr True), VerifySig z p (Inr True),
        Unzip (KbootUnzip z (text_of (firmware_device args)) (destdir args))]"
| flashed:
    "flash args \<Longrightarrow>
     official_run args r
       [VerifySha256 z (Inr True), VerifySig z p (Inr True),
        Unzip (KbootUnzip z (text_of (firmware_device args)) (destdir args)),
        Flash (KBOOT_NAME args)]"
| extracted_firmware:
    "\<not> flash args \<Longrightarrow>
     official_run args r
       [VerifySha256 z (Inr True), VerifySig z p (Inr True),
        Unzip (FirmwareUnzip z (text_of (firmware_device args)) (destdir args))]"

text \<open>The events a computation has added to the trace it started with.\<close>

definition added :: "'d world \<Rightarrow> 'd world \<Rightarrow> event list" where
  "added w w' = drop (length (trace w)) (trace w')"

fun is_download :: "event \<Rightarrow> bool" where
  "is_download (Download rq) = True"
| "is_download e = False"

fun is_input :: "event \<Rightarrow> bool" where
  "is_input (Input prompt) = True"
| "is_input e = False"

section \<open>The artifacts and their names on disk\<close>

text \<open>
  The six artifacts of the specification, the path of each under the destination directory
  as the specification names it, the downloader that fetches it, and the block of the
  orchestrator that makes sure it is there.
\<close>

datatype artifact = Zip | Sha256 | Sig | Pem | BetaKboot | BetaBin

fun artifact_path :: "args \<Rightarrow> artifact \<Rightarrow> string" where
  "artifact_path args Zip =
     destdir args @ ''/'' @ ''krux-'' @ text_of (firmware_version args) @ ''.zip''"
| "artifact_path args Sha256 =
     destdir args @ ''/'' @ ''krux-'' @ text_of (firmware_version args) @ ''.zip.sha256.txt''"
| "artifact_path args Sig =
     destdir args @ ''/'' @ ''krux-'' @ text_of (firmware_version args) @ ''.zip.sig''"
| "artifact_path args Pem = destdir args @ ''/'' @ ''selfcustody.pem''"
| "artifact_path args BetaKboot = destdir args @ ''/'' @ ''kboot.kfpkg''"
| "artifact_path args BetaBin = destdir args @ ''/'' @ ''firmware.bin''"

fun artifact_request :: "args \<Rightarrow> artifact \<Rightarrow> request" where
  "artifact_request args Zip = ZipDownloader (text_of (firmware_version args)) (destdir args)"
| "artifact_request args Sha256 =
     Sha256Downloader (text_of (firmware_version args)) (destdir args)"
| "artifact_request args Sig = SigDownloader (text_of (firmware_version args)) (destdir args)"
| "artifact_request args Pem = PemDownloader (destdir args)"
| "artifact_request args BetaKboot =
     BetaDownloader (text_of (firmware_device args)) ''kboot.kfpkg'' (destdir args)"
| "artifact_request args BetaBin =
     BetaDownloader (text_of (firmware_device args)) ''firmware.bin'' (destdir args)"

fun ensure :: "'d env \<Rightarrow> args \<Rightarrow> artifact \<Rightarrow> ('d, unit) io" where
  "ensure env args Zip = seq (ensure_zip env args) (ret ())"
| "ensure env args Sha256 = ensure_sha256 env args"
| "ensure env args Sig = ensure_sig env args"
| "ensure env args Pem = seq (ensure_pem env args) (ret ())"
| "ensure env args BetaKboot = ensure_kboot_beta env args"
| "ensure env args BetaBin = ensure_bin_beta env args"

text \<open>
  The policy of the claim about downloads, in its own words and apart from the code: an
  artifact is fetched when its file is absent, or when it is present and the user answers
  \<open>y\<close> to the question; it is kept when the user answers anything else; and the run stops
  when the question finds standard input at its end. A decision carries the answers that
  are left.
\<close>

datatype decision = Fetch "string list" | Keep "string list" | Stop

definition decide :: "'d env \<Rightarrow> args \<Rightarrow> artifact \<Rightarrow> 'd \<Rightarrow> string list \<Rightarrow> decision" where
  "decide env args a d answers =
     (if \<not> path_exists env d (artifact_path args a) then Fetch answers
      else case answers of
             [] \<Rightarrow> Stop
           | x # later \<Rightarrow> if x = ''y'' then Fetch later else Keep later)"

text \<open>
  The policy along a sequence of artifacts: the downloads it asks for, in order, and the
  disk and the answers left at the end, or \<open>None\<close> when the run has stopped on the way (at
  the end of standard input, or at a download that raises).
\<close>

fun fetch_plan ::
  "'d env \<Rightarrow> args \<Rightarrow> artifact list \<Rightarrow> 'd \<Rightarrow> string list
     \<Rightarrow> request list \<times> ('d \<times> string list) option" where
  "fetch_plan env args [] d answers = ([], Some (d, answers))"
| "fetch_plan env args (a # rest) d answers =
     (case decide env args a d answers of
        Stop \<Rightarrow> ([], None)
      | Keep left \<Rightarrow> fetch_plan env args rest d left
      | Fetch left \<Rightarrow>
          (case download env (artifact_request args a) d of
             (Inl e, d') \<Rightarrow> ([artifact_request args a], None)
           | (Inr path, d') \<Rightarrow>
               (artifact_request args a # fst (fetch_plan env args rest d' left),
                snd (fetch_plan env args rest d' left))))"

text \<open>The artifacts a run needs, by the artifact set its version selects.\<close>

definition needed :: "args \<Rightarrow> artifact list" where
  "needed args =
     (case selected (text_of (firmware_version args)) of
        Beta \<Rightarrow> if flash args then [BetaKboot] else [BetaBin]
      | Official \<Rightarrow> [Zip, Sha256, Sig, Pem]
      | Neither \<Rightarrow> [])"

text \<open>
  \<open>obeys env args a m\<close>: the computation \<open>m\<close> does for the artifact \<open>a\<close> what the policy
  decides, and leaves the disk and the answers as the policy says. \<open>plans env args as m\<close>:
  the downloads of \<open>m\<close> are those of the policy along \<open>as\<close>.
\<close>

definition obeys :: "'d env \<Rightarrow> args \<Rightarrow> artifact \<Rightarrow> ('d, 'a) io \<Rightarrow> bool" where
  "obeys env args a m =
     (\<forall>w r w'. m w = (r, w') \<longrightarrow>
        (\<exists>ev. trace w' = trace w @ ev \<and>
           (case decide env args a (disk w) (stdin w) of
              Stop \<Rightarrow> filter is_download ev = [] \<and> isl r
            | Keep left \<Rightarrow>
                filter is_download ev = [] \<and> \<not> isl r \<and> disk w' = disk w \<and> stdin w' = left
            | Fetch left \<Rightarrow>
                filter is_download ev = [Download (artifact_request args a)]
                \<and> disk w' = snd (download env (artifact_request args a) (disk w))
                \<and> stdin w' = left
                \<and> (isl r \<longleftrightarrow> isl (fst (download env (artifact_request args a) (disk w)))))))"

definition plans :: "'d env \<Rightarrow> args \<Rightarrow> artifact list \<Rightarrow> ('d, 'a) io \<Rightarrow> bool" where
  "plans env args as m =
     (\<forall>w r w'. m w = (r, w') \<longrightarrow>
        (\<exists>ev. trace w' = trace w @ ev \<and>
           filter is_download ev
             = map Download (fst (fetch_plan env args as (disk w) (stdin w)))))"

section \<open>A small world to run the orchestrator in\<close>

text \<open>
  The disk is the list of the paths that exist. A download creates the file it is named
  after and returns its path; the two verifications answer what the two flags say;
  extraction, flashing and wiping succeed.
\<close>

definition request_path :: "request \<Rightarrow> string" where
  "request_path rq =
     (case rq of
        ZipDownloader v d \<Rightarrow> d @ ''/krux-'' @ v @ ''.zip''
      | Sha256Downloader v d \<Rightarrow> d @ ''/krux-'' @ v @ ''.zip.sha256.txt''
      | SigDownloader v d \<Rightarrow> d @ ''/krux-'' @ v @ ''.zip.sig''
      | PemDownloader d \<Rightarrow> d @ ''/selfcustody.pem''
      | BetaDownloader dev kind d \<Rightarrow> d @ ''/'' @ kind)"

definition demo_env :: "bool \<Rightarrow> bool \<Rightarrow> string list env" where
  "demo_env sha_ok sig_ok =
     \<lparr>platform = ''linux'',
      path_exists = (\<lambda>d p. p \<in> set d),
      get_version = ''0.0.2-alpha'',
      VALID_DEVICES = [''select a new one'', ''m5stickv'', ''amigo'', ''dock''],
      selector_releases = ([''v24.03.0'', ''odudex/krux_binaries''], None),
      download = (\<lambda>rq d. (Inr (request_path rq), request_path rq # d)),
      sha256_verifyer = (\<lambda>f c d. Inr (''ab'', if sha_ok then ''ab'' else ''ac'', Inr sha_ok)),
      sig_verifyer = (\<lambda>f s p d. Inr sig_ok),
      unzip_load = (\<lambda>u d. (Inr (), d)),
      flasher_flash = (\<lambda>f d. Inr ()),
      wiper_wipe = (\<lambda>d. Inr ())\<rparr>"

definition demo_args :: args where
  "demo_args =
     \<lparr>version = False, available_firmwares = False, available_devices = False,
      firmware_device = Some ''amigo'', firmware_version = Some ''v24.03.0'',
      destdir = ''/tmp'', flash = True, wipe = False\<rparr>"

section \<open>What the patterns match\<close>

lemma matches_Cons:
  "matches (i # p) m \<longleftrightarrow> (\<exists>m1 m2. m = m1 @ m2 \<and> item_matches i m1 \<and> matches p m2)"
proof
  assume "matches (i # p) m"
  then obtain k where "k \<le> length m" "item_matches i (take k m)" "matches p (drop k m)"
    by auto
  then show "\<exists>m1 m2. m = m1 @ m2 \<and> item_matches i m1 \<and> matches p m2"
    by (metis append_take_drop_id)
next
  assume "\<exists>m1 m2. m = m1 @ m2 \<and> item_matches i m1 \<and> matches p m2"
  then obtain m1 m2 where "m = m1 @ m2" "item_matches i m1" "matches p m2" by blast
  then have "length m1 \<le> length m \<and> item_matches i (take (length m1) m) \<and> matches p (drop (length m1) m)"
    by simp
  then show "matches (i # p) m" by (simp del: item_matches.simps) blast
qed

lemma match_rest_sound:
  "match_rest p s = Some r \<Longrightarrow> \<exists>m. s = m @ r \<and> matches p m"
proof (induction p s arbitrary: r rule: match_rest.induct)
  case (1 s)
  then show ?case by simp
next
  case (2 a p)
  then show ?case by simp
next
  case (3 a p c s)
  from "3.prems" have ok: "atom_ok a c" and rest: "match_rest p s = Some r"
    by (auto split: if_splits)
  from "3.IH" [OF ok rest] obtain m where m: "s = m @ r" "matches p m" by blast
  have "c # s = ([c] @ m) @ r" using m by simp
  moreover have "matches (One a # p) ([c] @ m)"
    unfolding matches_Cons using ok m(2) by (intro exI [of _ "[c]"] exI [of _ m]) simp
  ultimately show ?case by blast
next
  case (4 a p)
  then show ?case by simp
next
  case (5 a p c s)
  from "5.prems" have ok: "atom_ok a c" by (auto split: if_splits)
  show ?case
  proof (cases "match_rest (Plus a # p) s")
    case None
    with "5.prems" ok have rest: "match_rest p s = Some r" by simp
    from "5.IH"(2) [OF ok None rest] obtain m where m: "s = m @ r" "matches p m" by blast
    have "c # s = ([c] @ m) @ r" using m by simp
    moreover have "matches (Plus a # p) ([c] @ m)"
      unfolding matches_Cons using ok m(2) by (intro exI [of _ "[c]"] exI [of _ m]) simp
    ultimately show ?thesis by blast
  next
    case (Some r')
    with "5.prems" ok have "r' = r" by simp
    with Some have rest: "match_rest (Plus a # p) s = Some r" by simp
    from "5.IH"(1) [OF ok rest] obtain m where m: "s = m @ r" "matches (Plus a # p) m" by blast
    from m(2) obtain m1 m2 where s: "m = m1 @ m2" "item_matches (Plus a) m1" "matches p m2"
      unfolding matches_Cons by blast
    have "c # s = ((c # m1) @ m2) @ r" using m(1) s(1) by simp
    moreover have "matches (Plus a # p) ((c # m1) @ m2)"
      unfolding matches_Cons using ok s(2,3)
      by (intro exI [of _ "c # m1"] exI [of _ m2]) simp
    ultimately show ?thesis by blast
  qed
qed

lemma match_rest_plus_complete:
  assumes tail: "match_rest p (m2 @ r) \<noteq> None"
  shows "m1 \<noteq> [] \<Longrightarrow> list_all (atom_ok a) m1 \<Longrightarrow> match_rest (Plus a # p) (m1 @ m2 @ r) \<noteq> None"
proof (induction m1)
  case Nil
  then show ?case by simp
next
  case (Cons c m1)
  show ?case
  proof (cases "m1 = []")
    case True
    with Cons.prems tail show ?thesis by (auto split: option.splits)
  next
    case False
    with Cons have "match_rest (Plus a # p) (m1 @ m2 @ r) \<noteq> None" by simp
    with Cons.prems show ?thesis by (auto split: option.splits)
  qed
qed

lemma match_rest_complete:
  "matches p m \<Longrightarrow> match_rest p (m @ r) \<noteq> None"
proof (induction p arbitrary: m)
  case Nil
  then show ?case by simp
next
  case (Cons i p)
  from Cons.prems obtain m1 m2 where s: "m = m1 @ m2" "item_matches i m1" "matches p m2"
    unfolding matches_Cons by blast
  from Cons.IH [OF s(3)] have tail: "match_rest p (m2 @ r) \<noteq> None" .
  show ?case
  proof (cases i)
    case (One a)
    with s(2) obtain c where "m1 = [c]" "atom_ok a c"
      by (auto split: list.splits)
    with s(1) tail One show ?thesis by simp
  next
    case (Plus a)
    with s(2) have "m1 \<noteq> []" "list_all (atom_ok a) m1" by simp_all
    from match_rest_plus_complete [OF tail this] s(1) Plus show ?thesis by simp
  qed
qed

lemma match_rest_iff:
  "match_rest p s \<noteq> None \<longleftrightarrow> (\<exists>m post. s = m @ post \<and> matches p m)"
  using match_rest_sound match_rest_complete by (metis not_Some_eq)

lemma re_findall_nonempty:
  "re_findall p s \<noteq> [] \<longleftrightarrow> (\<exists>pre t. s = pre @ t \<and> match_rest p t \<noteq> None)"
proof (induction p s rule: re_findall.induct)
  case (1 p s)
  show ?case
  proof (cases "match_rest p s")
    case (Some r)
    then have "re_findall p s \<noteq> []" by (subst re_findall.simps) simp
    moreover have "s = [] @ s \<and> match_rest p s \<noteq> None" using Some by simp
    ultimately show ?thesis by blast
  next
    case None
    show ?thesis
    proof (cases s)
      case Nil
      with None show ?thesis by (subst re_findall.simps) simp
    next
      case (Cons c t)
      with None have eq: "re_findall p s = re_findall p t" by (subst re_findall.simps) simp
      from "1.IH"(1) [OF None Cons]
      have ih: "re_findall p t \<noteq> [] \<longleftrightarrow> (\<exists>pre u. t = pre @ u \<and> match_rest p u \<noteq> None)" .
      have "(\<exists>pre u. s = pre @ u \<and> match_rest p u \<noteq> None)
            \<longleftrightarrow> (\<exists>pre u. t = pre @ u \<and> match_rest p u \<noteq> None)"
      proof
        assume "\<exists>pre u. s = pre @ u \<and> match_rest p u \<noteq> None"
        then obtain pre u where pu: "s = pre @ u" "match_rest p u \<noteq> None" by blast
        show "\<exists>pre u. t = pre @ u \<and> match_rest p u \<noteq> None"
        proof (cases pre)
          case Nil
          with pu None show ?thesis by simp
        next
          case (Cons x pre')
          with pu \<open>s = c # t\<close> have "t = pre' @ u" by simp
          with pu(2) show ?thesis by blast
        qed
      next
        assume "\<exists>pre u. t = pre @ u \<and> match_rest p u \<noteq> None"
        then obtain pre u where "t = pre @ u" "match_rest p u \<noteq> None" by blast
        with Cons have "s = (c # pre) @ u \<and> match_rest p u \<noteq> None" by simp
        then show "\<exists>pre u. s = pre @ u \<and> match_rest p u \<noteq> None" by blast
      qed
      with ih eq show ?thesis by simp
    qed
  qed
qed

lemma re_findall_occurs: "re_findall p s \<noteq> [] \<longleftrightarrow> occurs p s"
  unfolding re_findall_nonempty match_rest_iff occurs_def by blast

section \<open>Reasoning about traces\<close>

lemma bndE:
  assumes "bnd m f w = (r, w')"
  obtains (failed) e where "m w = (Inl e, w')" "r = Inl e"
        | (passed) a w1 where "m w = (Inr a, w1)" "f a w1 = (r, w')"
  using assms by (auto simp: bnd_def split: prod.splits sum.splits)

lemma seqE:
  assumes "seq m n w = (r, w')"
  obtains (failed) e where "m w = (Inl e, w')" "r = Inl e"
        | (passed) a w1 where "m w = (Inr a, w1)" "n w1 = (r, w')"
  using assms unfolding seq_def by (rule bndE)

lemma emitsD:
  "emits P m \<Longrightarrow> m w = (r, w') \<Longrightarrow> \<exists>ev. trace w' = trace w @ ev \<and> list_all P ev"
  by (simp add: emits_def)

lemma emits_ret: "emits P (ret a)"
  by (simp add: emits_def ret_def)

lemma emits_raise: "emits P (raise e)"
  by (simp add: emits_def raise_def)

lemma emits_emit: "P e \<Longrightarrow> emits P (emit e)"
  by (auto simp: emits_def emit_def)

lemma emits_print: "P (Print msg) \<Longrightarrow> emits P (print msg)"
  by (simp add: print_def emits_emit)

lemma emits_input: "P (Input prompt) \<Longrightarrow> emits P (input prompt)"
  by (auto simp: emits_def input_def split: list.splits)

lemma emits_exists: "emits P (os_path_exists env p)"
  by (simp add: emits_def os_path_exists_def)

lemma emits_download: "P (Download rq) \<Longrightarrow> emits P (call_download env rq)"
  by (auto simp: emits_def call_download_def split: prod.splits)

lemma emits_unzip: "P (Unzip u) \<Longrightarrow> emits P (call_unzip env u)"
  by (auto simp: emits_def call_unzip_def split: prod.splits)

lemma emits_flash: "P (Flash f) \<Longrightarrow> emits P (call_flash env f)"
  by (auto simp: emits_def call_flash_def)

lemma emits_wipe: "P Wipe \<Longrightarrow> emits P (call_wipe env)"
  by (auto simp: emits_def call_wipe_def)

lemma emits_bnd:
  assumes m: "emits P m" and f: "\<And>a. emits P (f a)"
  shows "emits P (bnd m f)"
  unfolding emits_def
proof (intro allI impI)
  fix w r w'
  assume run: "bnd m f w = (r, w')"
  then show "\<exists>ev. trace w' = trace w @ ev \<and> list_all P ev"
  proof (cases rule: bndE)
    case (failed e)
    with emitsD [OF m] show ?thesis by blast
  next
    case (passed a w1)
    from emitsD [OF m passed(1)] obtain ev1 where
      ev1: "trace w1 = trace w @ ev1" "list_all P ev1" by blast
    from emitsD [OF f passed(2)] obtain ev2 where
      ev2: "trace w' = trace w1 @ ev2" "list_all P ev2" by blast
    from ev1 ev2 have "trace w' = trace w @ (ev1 @ ev2) \<and> list_all P (ev1 @ ev2)" by simp
    then show ?thesis by blast
  qed
qed

lemma emits_seq: "emits P m \<Longrightarrow> emits P n \<Longrightarrow> emits P (seq m n)"
  by (simp add: seq_def emits_bnd)

lemma emits_if: "(c \<Longrightarrow> emits P m) \<Longrightarrow> (\<not> c \<Longrightarrow> emits P n) \<Longrightarrow> emits P (if c then m else n)"
  by simp

lemma emits_block: "(\<And>m. m \<in> set ms \<Longrightarrow> emits P m) \<Longrightarrow> emits P (block ms)"
  by (induction ms) (simp_all add: emits_ret emits_seq)

lemmas emits_intros =
  emits_ret emits_raise emits_emit emits_print emits_input emits_exists emits_download
  emits_unzip emits_flash emits_wipe emits_bnd emits_seq emits_if

lemma emits_ensure_zip: "emits fetching (ensure_zip env args)"
  unfolding ensure_zip_def download_zip_def by (intro emits_intros) simp_all

lemma emits_ensure_sha256: "emits fetching (ensure_sha256 env args)"
  unfolding ensure_sha256_def download_zip_sha256sum_def by (intro emits_intros) simp_all

lemma emits_ensure_sig: "emits fetching (ensure_sig env args)"
  unfolding ensure_sig_def download_zip_sig_def by (intro emits_intros) simp_all

lemma emits_ensure_pem: "emits fetching (ensure_pem env args)"
  unfolding ensure_pem_def download_pem_def by (intro emits_intros) simp_all

lemma emits_ensure_kboot_beta: "emits fetching (ensure_kboot_beta env args)"
  unfolding ensure_kboot_beta_def download_kboot_beta_def by (intro emits_intros) simp_all

lemma emits_ensure_bin_beta: "emits fetching (ensure_bin_beta env args)"
  unfolding ensure_bin_beta_def download_bin_beta_def by (intro emits_intros) simp_all

lemma milestones_append [simp]: "milestones (xs @ ys) = milestones xs @ milestones ys"
  by (simp add: milestones_def)

lemma milestones_Nil [simp]: "milestones [] = []"
  by (simp add: milestones_def)

lemma milestones_Cons [simp]:
  "milestones (e # es) = (if fetching e then milestones es else e # milestones es)"
  by (simp add: milestones_def)

lemma milestones_fetching: "list_all fetching ev \<Longrightarrow> milestones ev = []"
  by (induction ev) simp_all

lemma milestones_subset: "set (milestones ev) \<subseteq> set ev"
  by (simp add: milestones_def)

lemma verify_downloaded_trace:
  assumes "verify_downloaded env z p w = (r, w')"
  shows "\<exists>ev. trace w' = trace w @ ev \<and> verified z p r (milestones ev)"
  using assms
  unfolding verify_downloaded_def verify_sha256sum_def verify_sig_def
    seq_def bnd_def print_def emit_def raise_def ret_def
  by (auto split: sum.splits prod.splits if_splits intro: verified.intros)

lemma download_and_verify_trace:
  assumes "download_and_verify env args w = (r, w')"
  shows "\<exists>ev. trace w' = trace w @ ev \<and>
           ((\<exists>e. r = Inl e \<and> milestones ev = []) \<or> (\<exists>z p. verified z p r (milestones ev)))"
proof -
  note fetch = emitsD [OF emits_ensure_zip] emitsD [OF emits_ensure_sha256]
    emitsD [OF emits_ensure_sig] emitsD [OF emits_ensure_pem]
  from assms [unfolded download_and_verify_def] show ?thesis
  proof (cases rule: bndE)
    case (failed e)
    with fetch(1) [OF failed(1)] show ?thesis by (auto simp: milestones_fetching)
  next
    case zip: (passed zipd w1)
    from fetch(1) [OF zip(1)] obtain ev1 where
      ev1: "trace w1 = trace w @ ev1" "milestones ev1 = []"
      by (auto simp: milestones_fetching)
    from zip(2) show ?thesis
    proof (cases rule: seqE)
      case (failed e)
      from fetch(2) [OF failed(1)] ev1 failed(2) show ?thesis
        by (auto simp: milestones_fetching)
    next
      case sha: (passed u w2)
      from fetch(2) [OF sha(1)] ev1 obtain ev2 where
        ev2: "trace w2 = trace w @ ev2" "milestones ev2 = []"
        by (auto simp: milestones_fetching)
      from sha(2) show ?thesis
      proof (cases rule: seqE)
        case (failed e)
        from fetch(3) [OF failed(1)] ev2 failed(2) show ?thesis
          by (auto simp: milestones_fetching)
      next
        case sig: (passed u' w3)
        from fetch(3) [OF sig(1)] ev2 obtain ev3 where
          ev3: "trace w3 = trace w @ ev3" "milestones ev3 = []"
          by (auto simp: milestones_fetching)
        from sig(2) show ?thesis
        proof (cases rule: bndE)
          case (failed e)
          from fetch(4) [OF failed(1)] ev3 failed(2) show ?thesis
            by (auto simp: milestones_fetching)
        next
          case pem: (passed pemfile w4)
          from fetch(4) [OF pem(1)] ev3 obtain ev4 where
            ev4: "trace w4 = trace w @ ev4" "milestones ev4 = []"
            by (auto simp: milestones_fetching)
          from verify_downloaded_trace [OF pem(2)] obtain ev5 where
            ev5: "trace w' = trace w4 @ ev5" "verified zipd pemfile r (milestones ev5)"
            by blast
          from ev4 ev5 have "trace w' = trace w @ (ev4 @ ev5)"
            and "verified zipd pemfile r (milestones (ev4 @ ev5))" by simp_all
          then show ?thesis by blast
        qed
      qed
    qed
  qed
qed

section \<open>The milestones of a run\<close>

lemma after_kboot_trace:
  assumes "seq (print a)
          (seq (print b)
          (seq (call_unzip env u)
          (seq (print c)
          (seq (print d')
          (seq (input q)
               (call_flash env k)))))) w = (r, w')"
  shows "\<exists>ev. trace w' = trace w @ ev \<and>
           (((\<exists>e. r = Inl e) \<and> milestones ev = [Unzip u]) \<or> milestones ev = [Unzip u, Flash k])"
  using assms
  unfolding seq_def bnd_def print_def emit_def call_unzip_def input_def call_flash_def
  by (auto split: sum.splits prod.splits list.splits)

lemma after_firmware_trace:
  assumes "seq (print a)
          (seq (print b)
          (seq (call_unzip env u)
          (seq (print c)
          (seq (print d')
               (print e))))) w = (r, w')"
  shows "\<exists>ev. trace w' = trace w @ ev \<and> milestones ev = [Unzip u]"
  using assms
  unfolding seq_def bnd_def print_def emit_def call_unzip_def
  by (auto split: sum.splits prod.splits list.splits)

lemma official_branch_trace:
  assumes "official_branch env args w = (r, w')"
  shows "\<exists>ev. trace w' = trace w @ ev \<and> official_run args r (milestones ev)"
proof (cases "flash args")
  case True
  with assms have "bnd (download_and_verify env args) (\<lambda>ZIPFILE.
        seq (print [])
       (seq (print (''Unzipping '' @ ZIPFILE @ '' for '' @ text_of (firmware_device args)))
       (seq (call_unzip env
               (KbootUnzip ZIPFILE (text_of (firmware_device args)) (destdir args)))
       (seq (print [])
       (seq (print ('' Flashing '' @ text_of (firmware_version args) @ '' for ''
                    @ text_of (firmware_device args)))
       (seq (input (connect_prompt args))
            (call_flash env (KBOOT_NAME args)))))))) w = (r, w')"
    by (simp add: official_branch_def)
  then show ?thesis
  proof (cases rule: bndE)
    case (failed e)
    from download_and_verify_trace [OF failed(1)] failed(2) show ?thesis
      by (auto intro: official_run.intros)
  next
    case (passed zipd w1)
    from download_and_verify_trace [OF passed(1)] obtain ev1 z p where
      ev1: "trace w1 = trace w @ ev1" "verified z p (Inr zipd) (milestones ev1)" by auto
    from ev1(2) have ms1: "milestones ev1 = [VerifySha256 zipd (Inr True), VerifySig zipd p (Inr True)]"
      by (cases rule: verified.cases) simp
    from after_kboot_trace [OF passed(2)] obtain ev2 where
      ev2: "trace w' = trace w1 @ ev2"
        "((\<exists>e. r = Inl e) \<and> milestones ev2 = [Unzip (KbootUnzip zipd (text_of (firmware_device args)) (destdir args))])
         \<or> milestones ev2 = [Unzip (KbootUnzip zipd (text_of (firmware_device args)) (destdir args)), Flash (KBOOT_NAME args)]"
      by blast
    from ev1(1) ev2(1) have tr: "trace w' = trace w @ (ev1 @ ev2)" by simp
    from ms1 ev2(2) True have "official_run args r (milestones (ev1 @ ev2))"
      by (auto intro: official_run.intros)
    with tr show ?thesis by blast
  qed
next
  case False
  with assms have "bnd (download_and_verify env args) (\<lambda>ZIPFILE.
        seq (print [])
       (seq (print (''Unzipping '' @ ZIPFILE @ '' for '' @ text_of (firmware_device args)))
       (seq (call_unzip env
               (FirmwareUnzip ZIPFILE (text_of (firmware_device args)) (destdir args)))
       (seq (print [])
       (seq (print (''Copy '' @ FIRMWARE_NAME args @ '' to your SDCard''))
            (print (''Copy '' @ FIRMWARE_NAME args @ ''.sig to your SDCard''))))))) w = (r, w')"
    by (simp add: official_branch_def)
  then show ?thesis
  proof (cases rule: bndE)
    case (failed e)
    from download_and_verify_trace [OF failed(1)] failed(2) show ?thesis
      by (auto intro: official_run.intros)
  next
    case (passed zipd w1)
    from download_and_verify_trace [OF passed(1)] obtain ev1 z p where
      ev1: "trace w1 = trace w @ ev1" "verified z p (Inr zipd) (milestones ev1)" by auto
    from ev1(2) have ms1: "milestones ev1 = [VerifySha256 zipd (Inr True), VerifySig zipd p (Inr True)]"
      by (cases rule: verified.cases) simp
    from after_firmware_trace [OF passed(2)] obtain ev2 where
      ev2: "trace w' = trace w1 @ ev2"
        "milestones ev2 = [Unzip (FirmwareUnzip zipd (text_of (firmware_device args)) (destdir args))]"
      by blast
    from ev1(1) ev2(1) have tr: "trace w' = trace w @ (ev1 @ ev2)" by simp
    from ms1 ev2(2) False have "official_run args r (milestones (ev1 @ ev2))"
      by (auto intro: official_run.intros)
    with tr show ?thesis by blast
  qed
qed

lemma beta_branch_trace:
  assumes "beta_branch env args w = (r, w')"
  shows "\<exists>ev. trace w' = trace w @ ev \<and>
           (milestones ev = [] \<or> (flash args \<and> milestones ev = [Flash (KBOOT_NAME_beta args)]))"
proof (cases "flash args")
  case False
  have "emits fetching (beta_branch env args)"
    using False unfolding beta_branch_def
    by (auto intro!: emits_seq emits_print emits_ensure_bin_beta)
  from emitsD [OF this assms] show ?thesis by (auto simp: milestones_fetching)
next
  case True
  with assms have "seq (ensure_kboot_beta env args)
       (seq (print [])
       (seq (print (''/ Flashing firmware from '' @ KBOOT_NAME_beta args))
       (seq (input (connect_prompt args))
            (call_flash env (KBOOT_NAME_beta args))))) w = (r, w')"
    by (simp add: beta_branch_def)
  then show ?thesis
  proof (cases rule: seqE)
    case (failed e)
    from emitsD [OF emits_ensure_kboot_beta failed(1)] show ?thesis
      by (auto simp: milestones_fetching)
  next
    case (passed u w1)
    from emitsD [OF emits_ensure_kboot_beta passed(1)] obtain ev1 where
      ev1: "trace w1 = trace w @ ev1" "milestones ev1 = []"
      by (auto simp: milestones_fetching)
    from passed(2) have "\<exists>ev2. trace w' = trace w1 @ ev2 \<and>
        (milestones ev2 = [] \<or> milestones ev2 = [Flash (KBOOT_NAME_beta args)])"
      unfolding seq_def bnd_def print_def emit_def input_def call_flash_def
      by (auto split: sum.splits prod.splits list.splits)
    then obtain ev2 where ev2: "trace w' = trace w1 @ ev2"
      "milestones ev2 = [] \<or> milestones ev2 = [Flash (KBOOT_NAME_beta args)]" by blast
    from ev1 ev2 True have "trace w' = trace w @ (ev1 @ ev2)"
      and "milestones (ev1 @ ev2) = [] \<or> (flash args \<and> milestones (ev1 @ ev2) = [Flash (KBOOT_NAME_beta args)])"
      by auto
    then show ?thesis by blast
  qed
qed

lemma selected_simps:
  "selected v = Beta \<longleftrightarrow> re_findall BETA_PATTERN v \<noteq> []"
  "selected v = Official \<longleftrightarrow> re_findall BETA_PATTERN v = [] \<and> re_findall OFFICIAL_PATTERN v \<noteq> []"
  "selected v = Neither \<longleftrightarrow> re_findall BETA_PATTERN v = [] \<and> re_findall OFFICIAL_PATTERN v = []"
  by (simp_all add: selected_def)

lemma firmware_branch_selected:
  "firmware_branch env args =
     (case selected (text_of (firmware_version args)) of
        Beta \<Rightarrow> beta_branch env args
      | Official \<Rightarrow> official_branch env args
      | Neither \<Rightarrow> ret ())"
  by (simp add: firmware_branch_def selected_def)

lemma emits_list_devices: "emits fetching (list_devices env)"
  unfolding list_devices_def by (rule emits_block) (auto intro: emits_print)

lemma list_releases_trace:
  assumes "list_releases env w = (r, w')"
  shows "\<exists>ev. trace w' = trace w @ ev \<and> milestones ev = [Releases]"
proof -
  have tail: "emits fetching
      (seq (block (map (\<lambda>v. print (''* '' @ v)) (fst (selector_releases env))))
         (case snd (selector_releases env) of None \<Rightarrow> ret () | Some e \<Rightarrow> raise e))"
    by (rule emits_seq, rule emits_block)
       (auto intro: emits_print emits_ret emits_raise split: option.splits)
  from assms have "seq (emit Releases) (seq (block (map (\<lambda>v. print (''* '' @ v)) (fst (selector_releases env))))
         (case snd (selector_releases env) of None \<Rightarrow> ret () | Some e \<Rightarrow> raise e)) w = (r, w')"
    by (simp add: list_releases_def)
  then show ?thesis
  proof (cases rule: seqE)
    case (failed e)
    then show ?thesis by (simp add: emit_def)
  next
    case (passed a w1)
    then have w1: "trace w1 = trace w @ [Releases]" by (auto simp: emit_def)
    from emitsD [OF tail passed(2)] obtain ev where "trace w' = trace w1 @ ev" "milestones ev = []"
      by (auto simp: milestones_fetching)
    with w1 have "trace w' = trace w @ ([Releases] @ ev) \<and> milestones ([Releases] @ ev) = [Releases]"
      by simp
    then show ?thesis by blast
  qed
qed

lemma main_trace:
  assumes "main env args w = (r, w')"
  shows "\<exists>ev. trace w' = trace w @ ev \<and>
           (milestones ev = []
            \<or> (available_firmwares args \<and> milestones ev = [Releases])
            \<or> (\<not> version args \<and> \<not> available_firmwares args \<and> \<not> available_devices args
                \<and> wipe args \<and> milestones ev = [Wipe])
            \<or> (selected (text_of (firmware_version args)) = Beta \<and> flash args
                \<and> milestones ev = [Flash (KBOOT_NAME_beta args)])
            \<or> (selected (text_of (firmware_version args)) = Official
                \<and> official_run args r (milestones ev)))"
proof -
  consider (v) "version args"
    | (f) "\<not> version args" "available_firmwares args"
    | (d) "\<not> version args" "\<not> available_firmwares args" "available_devices args"
    | (w) "\<not> version args" "\<not> available_firmwares args" "\<not> available_devices args" "wipe args"
    | (e) "\<not> version args" "\<not> available_firmwares args" "\<not> available_devices args" "\<not> wipe args"
          "truthy (firmware_device args)" "\<not> truthy (firmware_version args)"
    | (b) "\<not> version args" "\<not> available_firmwares args" "\<not> available_devices args" "\<not> wipe args"
          "truthy (firmware_device args)" "truthy (firmware_version args)"
    | (n) "\<not> version args" "\<not> available_firmwares args" "\<not> available_devices args" "\<not> wipe args"
          "\<not> truthy (firmware_device args)"
    by blast
  then show ?thesis
  proof cases
    case v
    with assms show ?thesis by (auto simp: main_def print_def emit_def)
  next
    case f
    with assms have "list_releases env w = (r, w')" by (simp add: main_def)
    from list_releases_trace [OF this] f show ?thesis by auto
  next
    case d
    with assms have "list_devices env w = (r, w')" by (simp add: main_def)
    from emitsD [OF emits_list_devices this] show ?thesis by (auto simp: milestones_fetching)
  next
    case w
    with assms show ?thesis
      by (auto simp: main_def seq_def bnd_def print_def emit_def call_wipe_def split: sum.splits)
  next
    case e
    with assms show ?thesis by (auto simp: main_def raise_def)
  next
    case n
    with assms show ?thesis by (auto simp: main_def ret_def)
  next
    case b
    with assms have fb: "firmware_branch env args w = (r, w')" by (simp add: main_def)
    show ?thesis
    proof (cases "selected (text_of (firmware_version args))")
      case Beta
      with fb have "beta_branch env args w = (r, w')" by (simp add: firmware_branch_selected)
      from beta_branch_trace [OF this] Beta show ?thesis by auto
    next
      case Official
      with fb have "official_branch env args w = (r, w')" by (simp add: firmware_branch_selected)
      from official_branch_trace [OF this] Official show ?thesis by auto
    next
      case Neither
      with fb show ?thesis by (auto simp: firmware_branch_selected ret_def)
    qed
  qed
qed

lemma run_trace:
  assumes "run env args d answers = (r, w)"
  shows "milestones (trace w) = []
            \<or> (available_firmwares args \<and> milestones (trace w) = [Releases])
            \<or> (platform env \<in> set supported_platforms \<and> \<not> version args
                \<and> \<not> available_firmwares args \<and> \<not> available_devices args
                \<and> wipe args \<and> milestones (trace w) = [Wipe])
            \<or> (selected (text_of (firmware_version args)) = Beta \<and> flash args
                \<and> milestones (trace w) = [Flash (KBOOT_NAME_beta args)])
            \<or> (selected (text_of (firmware_version args)) = Official
                \<and> official_run args r (milestones (trace w)))"
proof (cases "platform env \<in> set supported_platforms")
  case True
  with assms have "main env args \<lparr>disk = d, stdin = answers, trace = []\<rparr> = (r, w)"
    by (simp add: run_def krux_installer_def)
  from main_trace [OF this] True show ?thesis by simp
next
  case False
  with assms show ?thesis by (auto simp: run_def krux_installer_def raise_def)
qed

section \<open>The gate before flashing\<close>

lemma in_milestones: "e \<in> set tr \<Longrightarrow> \<not> fetching e \<Longrightarrow> e \<in> set (milestones tr)"
  by (simp add: milestones_def)

lemma filter_milestones:
  assumes "\<And>e. P e \<Longrightarrow> \<not> fetching e"
  shows "filter P tr = filter P (milestones tr)"
  using assms by (induction tr) auto

text \<open>
  Claim C1, amended. In every run on a version that is not of the beta channel, a call of
  \<open>Flasher.flash\<close> comes after \<open>verify_sha256sum\<close> and \<open>verify_sig\<close> have both returned
  true for the same zip archive and after the extraction of \<open>kboot.kfpkg\<close> from that
  archive; the file flashed is the extracted target \<open>KBOOT_NAME\<close>. In a run on a version of
  the beta channel nothing is verified, and the file flashed, if any, is the downloaded
  \<open>kboot.kfpkg\<close>.
\<close>

theorem flash_gate:
  assumes "run env args d answers = (r, w)"
  shows "(selected (text_of (firmware_version args)) \<noteq> Beta
            \<and> trace w = pre @ Flash f # post \<longrightarrow>
          (\<exists>z p. VerifySha256 z (Inr True) \<in> set pre
             \<and> VerifySig z p (Inr True) \<in> set pre
             \<and> Unzip (KbootUnzip z (text_of (firmware_device args)) (destdir args)) \<in> set pre
             \<and> f = KBOOT_NAME args))
       \<and> (selected (text_of (firmware_version args)) = Beta \<longrightarrow>
            filter is_verification (trace w) = []
            \<and> (Flash f \<in> set (trace w) \<longrightarrow> f = KBOOT_NAME_beta args))"
proof -
  have official: "\<exists>z p. VerifySha256 z (Inr True) \<in> set pre
           \<and> VerifySig z p (Inr True) \<in> set pre
           \<and> Unzip (KbootUnzip z (text_of (firmware_device args)) (destdir args)) \<in> set pre
           \<and> f = KBOOT_NAME args"
    if sel: "selected (text_of (firmware_version args)) \<noteq> Beta"
      and tr: "trace w = pre @ Flash f # post"
  proof -
    from tr have ms: "milestones (trace w) = milestones pre @ Flash f # milestones post"
      by simp
    from run_trace [OF assms] sel ms
    have "official_run args r (milestones pre @ Flash f # milestones post)"
      by (auto simp: Cons_eq_append_conv append_eq_Cons_conv)
    then have "\<exists>z p. milestones pre = [VerifySha256 z (Inr True), VerifySig z p (Inr True),
          Unzip (KbootUnzip z (text_of (firmware_device args)) (destdir args))]
        \<and> f = KBOOT_NAME args"
      by (cases rule: official_run.cases)
         (auto simp: Cons_eq_append_conv append_eq_Cons_conv elim!: verified.cases)
    then obtain z p where
      mp: "milestones pre = [VerifySha256 z (Inr True), VerifySig z p (Inr True),
          Unzip (KbootUnzip z (text_of (firmware_device args)) (destdir args))]"
      and f: "f = KBOOT_NAME args"
      by blast
    have "set (milestones pre) \<subseteq> set pre" by (rule milestones_subset)
    with mp f show ?thesis by auto
  qed
  have beta: "filter is_verification (trace w) = []
      \<and> (Flash f \<in> set (trace w) \<longrightarrow> f = KBOOT_NAME_beta args)"
    if sel: "selected (text_of (firmware_version args)) = Beta"
  proof -
    from run_trace [OF assms] sel
    have ms: "milestones (trace w) = [] \<or> milestones (trace w) = [Releases]
        \<or> milestones (trace w) = [Wipe] \<or> milestones (trace w) = [Flash (KBOOT_NAME_beta args)]"
      by auto
    have v: "filter is_verification (trace w) = filter is_verification (milestones (trace w))"
      by (rule filter_milestones) (auto elim: is_verification.elims)
    have "Flash f \<in> set (trace w) \<longrightarrow> Flash f \<in> set (milestones (trace w))"
      by (simp add: in_milestones)
    with ms v show ?thesis by auto
  qed
  from official beta show ?thesis by blast
qed

theorem flash_gate_witness:
  "selected (text_of (firmware_version demo_args)) \<noteq> Beta \<and>
   (\<exists>z p. VerifySha256 z (Inr True)
             \<in> set (butlast (trace (snd (run (demo_env True True) demo_args [] ['''']))))
        \<and> VerifySig z p (Inr True)
             \<in> set (butlast (trace (snd (run (demo_env True True) demo_args [] ['''']))))
        \<and> Unzip (KbootUnzip z ''amigo'' ''/tmp'')
             \<in> set (butlast (trace (snd (run (demo_env True True) demo_args [] ['''']))))
        \<and> ''/tmp/krux-v24.03.0//maixpy_amigo/kboot.kfpkg'' = KBOOT_NAME demo_args)
   \<and> selected (text_of (firmware_version
         (demo_args\<lparr>firmware_version := Some ''odudex/krux_binaries''\<rparr>))) = Beta
   \<and> Flash ''/tmp/kboot.kfpkg'' \<in> set (trace (snd (run (demo_env True True)
         (demo_args\<lparr>firmware_version := Some ''odudex/krux_binaries''\<rparr>) [] [''''])))
   \<and> filter is_verification (trace (snd (run (demo_env True True)
         (demo_args\<lparr>firmware_version := Some ''odudex/krux_binaries''\<rparr>) [] ['''']))) = []"
proof -
  let ?run = "run (demo_env True True) demo_args [] ['''']"
  let ?beta = "run (demo_env True True)
      (demo_args\<lparr>firmware_version := Some ''odudex/krux_binaries''\<rparr>) [] ['''']"
  have sel: "selected (text_of (firmware_version demo_args)) \<noteq> Beta"
    by code_simp
  have "trace (snd ?run) \<noteq> []
      \<and> last (trace (snd ?run)) = Flash ''/tmp/krux-v24.03.0//maixpy_amigo/kboot.kfpkg''"
    by code_simp
  then have tr: "trace (snd ?run)
      = butlast (trace (snd ?run)) @ Flash ''/tmp/krux-v24.03.0//maixpy_amigo/kboot.kfpkg'' # []"
    by (metis append_butlast_last_id)
  have args: "text_of (firmware_device demo_args) = ''amigo''" "destdir demo_args = ''/tmp''"
    by (simp_all add: demo_args_def)
  have "?run = (fst ?run, snd ?run)" by simp
  from flash_gate [OF this, of "butlast (trace (snd ?run))"
      "''/tmp/krux-v24.03.0//maixpy_amigo/kboot.kfpkg''" "[]"] sel tr
  have official: "\<exists>z p. VerifySha256 z (Inr True) \<in> set (butlast (trace (snd ?run)))
        \<and> VerifySig z p (Inr True) \<in> set (butlast (trace (snd ?run)))
        \<and> Unzip (KbootUnzip z (text_of (firmware_device demo_args)) (destdir demo_args))
             \<in> set (butlast (trace (snd ?run)))
        \<and> ''/tmp/krux-v24.03.0//maixpy_amigo/kboot.kfpkg'' = KBOOT_NAME demo_args"
    by blast
  have bsel: "selected (text_of (firmware_version
         (demo_args\<lparr>firmware_version := Some ''odudex/krux_binaries''\<rparr>))) = Beta"
    by code_simp
  have flashed: "Flash ''/tmp/kboot.kfpkg'' \<in> set (trace (snd ?beta))"
    by code_simp
  have "?beta = (fst ?beta, snd ?beta)" by simp
  from flash_gate [OF this] bsel
  have "filter is_verification (trace (snd ?beta)) = []" by blast
  with official sel bsel flashed show ?thesis unfolding args by blast
qed

text \<open>
  Claim C1 as stated fails on the beta channel: with the version
  \<open>odudex/krux_binaries\<close> the run flashes \<open>/tmp/kboot.kfpkg\<close> and no verification is among
  its events, in a world where both verifications would have answered false.
\<close>

theorem flash_ungated_beta:
  "milestones (trace (snd (run (demo_env False False)
      (demo_args\<lparr>firmware_version := Some ''odudex/krux_binaries''\<rparr>) [] ['''']))) =
     [Flash ''/tmp/kboot.kfpkg'']
   \<and> filter is_verification (trace (snd (run (demo_env False False)
      (demo_args\<lparr>firmware_version := Some ''odudex/krux_binaries''\<rparr>) [] ['''']))) = []"
  by code_simp



section \<open>Wiping\<close>

lemma run_wipe:
  assumes "platform env \<in> set supported_platforms" "\<not> version args"
    "\<not> available_firmwares args" "\<not> available_devices args" "wipe args"
  shows "run env args d answers =
           (wiper_wipe env d,
            \<lparr>disk = d, stdin = answers,
             trace = [Print ''Wiping firmware and data. Please be patient and wait until process finish.'', Wipe]\<rparr>)"
  using assms
  by (simp add: run_def krux_installer_def main_def seq_def bnd_def print_def emit_def
      call_wipe_def)

text \<open>
  Claim C3, amended. \<open>Wiper.wipe()\<close> is called only in an invocation with the wipe option,
  and there the orchestrator asks nothing: it prints the warning and calls the wiper, with
  no prompt among its events and standard input left unread. The wipe option on the
  command line is the only confirmation there is. With the option set (and none of the
  version and listing options before it), on a supported platform, this is the whole run.
\<close>

theorem wipe_only_by_option:
  "(run env args d answers = (r, w) \<and> Wipe \<in> set (trace w) \<longrightarrow>
      wipe args \<and> stdin w = answers \<and> filter is_input (trace w) = []
      \<and> trace w = [Print ''Wiping firmware and data. Please be patient and wait until process finish.'', Wipe])
   \<and> (platform env \<in> set supported_platforms \<and> \<not> version args
        \<and> \<not> available_firmwares args \<and> \<not> available_devices args \<and> wipe args \<longrightarrow>
      run env args d answers =
        (wiper_wipe env d,
         \<lparr>disk = d, stdin = answers,
          trace = [Print ''Wiping firmware and data. Please be patient and wait until process finish.'', Wipe]\<rparr>))"
proof -
  have only: "wipe args \<and> stdin w = answers \<and> filter is_input (trace w) = []
      \<and> trace w = [Print ''Wiping firmware and data. Please be patient and wait until process finish.'', Wipe]"
    if a: "run env args d answers = (r, w) \<and> Wipe \<in> set (trace w)"
  proof -
    from a have "Wipe \<in> set (milestones (trace w))" by (simp add: in_milestones)
    with run_trace [of env args d answers r w] a
    have br: "platform env \<in> set supported_platforms" "\<not> version args"
      "\<not> available_firmwares args" "\<not> available_devices args" "wipe args"
      by (auto elim!: official_run.cases verified.cases)
    from run_wipe [OF br, of d answers] a
    have "w = \<lparr>disk = d, stdin = answers,
             trace = [Print ''Wiping firmware and data. Please be patient and wait until process finish.'', Wipe]\<rparr>"
      by simp
    with br(5) show ?thesis by simp
  qed
  have always: "run env args d answers =
        (wiper_wipe env d,
         \<lparr>disk = d, stdin = answers,
          trace = [Print ''Wiping firmware and data. Please be patient and wait until process finish.'', Wipe]\<rparr>)"
    if "platform env \<in> set supported_platforms \<and> \<not> version args
        \<and> \<not> available_firmwares args \<and> \<not> available_devices args \<and> wipe args"
    using that by (simp add: run_wipe)
  from only always show ?thesis by blast
qed

text \<open>
  Claim C3 as stated fails: with the wipe option and an empty standard input, so that no
  confirmation can have been given, the wiper is called.
\<close>

theorem wipe_asks_nothing:
  "run (demo_env True True) (demo_args\<lparr>wipe := True\<rparr>) [] [] =
     (Inr (),
      \<lparr>disk = [], stdin = [],
       trace = [Print ''Wiping firmware and data. Please be patient and wait until process finish.'', Wipe]\<rparr>)"
  by code_simp

theorem wipe_only_by_option_witness:
  "Wipe \<in> set (trace (snd (run (demo_env True True) (demo_args\<lparr>wipe := True\<rparr>) [] [''no''])))
   \<and> wipe (demo_args\<lparr>wipe := True\<rparr>)
   \<and> stdin (snd (run (demo_env True True) (demo_args\<lparr>wipe := True\<rparr>) [] [''no''])) = [''no'']
   \<and> platform (demo_env True True) \<in> set supported_platforms
   \<and> run (demo_env True True) (demo_args\<lparr>wipe := True\<rparr>) [] [''no''] =
        (Inr (),
         \<lparr>disk = [], stdin = [''no''],
          trace = [Print ''Wiping firmware and data. Please be patient and wait until process finish.'', Wipe]\<rparr>)"
proof -
  let ?args = "demo_args\<lparr>wipe := True\<rparr>"
  have hyps: "platform (demo_env True True) \<in> set supported_platforms \<and> \<not> version ?args
        \<and> \<not> available_firmwares ?args \<and> \<not> available_devices ?args \<and> wipe ?args"
    by (simp add: demo_env_def demo_args_def supported_platforms_def)
  with wipe_only_by_option [of "demo_env True True" ?args "[]" "[''no'']"]
  have run: "run (demo_env True True) ?args [] [''no''] =
        (wiper_wipe (demo_env True True) [],
         \<lparr>disk = [], stdin = [''no''],
          trace = [Print ''Wiping firmware and data. Please be patient and wait until process finish.'', Wipe]\<rparr>)"
    by blast
  have "wiper_wipe (demo_env True True) [] = Inr ()" by (simp add: demo_env_def)
  with run hyps show ?thesis by simp
qed

section \<open>The pairing of device and version\<close>

text \<open>
  Claim C9, amended. On a supported platform, an invocation with a firmware device and no
  firmware version, and with none of the options that the dispatch looks at first
  (version, available firmwares, available devices, wipe), raises
  \<open>RuntimeError("--firmware-device should be paired with --firmware-version option")\<close>
  with nothing done: no event, the disk and standard input untouched.
\<close>

theorem unpaired_device_raises:
  assumes "platform env \<in> set supported_platforms"
    and "\<not> version args" and "\<not> available_firmwares args" and "\<not> available_devices args"
    and "\<not> wipe args"
    and "truthy (firmware_device args)" and "\<not> truthy (firmware_version args)"
  shows "run env args d answers =
           (Inl (RuntimeError ''--firmware-device should be paired with --firmware-version option''),
            \<lparr>disk = d, stdin = answers, trace = []\<rparr>)"
  using assms by (simp add: run_def krux_installer_def main_def raise_def)

theorem unpaired_device_raises_witness:
  "platform (demo_env True True) \<in> set supported_platforms
   \<and> truthy (firmware_device (demo_args\<lparr>firmware_version := None\<rparr>))
   \<and> \<not> truthy (firmware_version (demo_args\<lparr>firmware_version := None\<rparr>))
   \<and> run (demo_env True True) (demo_args\<lparr>firmware_version := None\<rparr>) [] [] =
           (Inl (RuntimeError ''--firmware-device should be paired with --firmware-version option''),
            \<lparr>disk = [], stdin = [], trace = []\<rparr>)"
proof -
  let ?args = "demo_args\<lparr>firmware_version := None\<rparr>"
  have h: "platform (demo_env True True) \<in> set supported_platforms" "\<not> version ?args"
    "\<not> available_firmwares ?args" "\<not> available_devices ?args" "\<not> wipe ?args"
    "truthy (firmware_device ?args)" "\<not> truthy (firmware_version ?args)"
    by (simp_all add: demo_env_def demo_args_def supported_platforms_def)
  from unpaired_device_raises [OF h, of "[]" "[]"] h show ?thesis by simp
qed

text \<open>
  Claim C9 as stated fails: the wipe option is looked at before the pairing, so a device
  without a version, together with the wipe option, wipes and raises nothing.
\<close>

theorem unpaired_device_with_wipe:
  "run (demo_env True True) (demo_args\<lparr>firmware_version := None, wipe := True\<rparr>) [] [] =
     (Inr (),
      \<lparr>disk = [], stdin = [],
       trace = [Print ''Wiping firmware and data. Please be patient and wait until process finish.'', Wipe]\<rparr>)"
  by code_simp

section \<open>The selection of the artifact set\<close>

declare matches.simps(2) [simp del]

lemma re_findall_empty: "re_findall p s = [] \<longleftrightarrow> \<not> occurs p s"
  using re_findall_occurs [of p s] by blast

lemma item_matches_One: "item_matches (One a) m \<longleftrightarrow> (\<exists>c. m = [c] \<and> atom_ok a c)"
  by (cases m) (auto split: list.splits)

lemma matches_One_Cons:
  "matches (One a # p) m \<longleftrightarrow> (\<exists>c m2. m = c # m2 \<and> atom_ok a c \<and> matches p m2)"
proof
  assume "matches (One a # p) m"
  then obtain m1 m2 c where "m = m1 @ m2" "m1 = [c]" "atom_ok a c" "matches p m2"
    unfolding matches_Cons item_matches_One by blast
  then show "\<exists>c m2. m = c # m2 \<and> atom_ok a c \<and> matches p m2" by simp
next
  assume "\<exists>c m2. m = c # m2 \<and> atom_ok a c \<and> matches p m2"
  then obtain c m2 where "m = c # m2" "atom_ok a c" "matches p m2" by blast
  then have "m = [c] @ m2 \<and> item_matches (One a) [c] \<and> matches p m2" by simp
  then show "matches (One a # p) m" unfolding matches_Cons by blast
qed

lemma matches_Plus_Cons:
  "matches (Plus a # p) m \<longleftrightarrow>
     (\<exists>m1 m2. m = m1 @ m2 \<and> m1 \<noteq> [] \<and> list_all (atom_ok a) m1 \<and> matches p m2)"
  unfolding matches_Cons by auto

lemma matches_literals: "matches (map (\<lambda>c. One (Lit c)) s) m \<longleftrightarrow> m = s"
proof (induction s arbitrary: m)
  case Nil
  show ?case by simp
next
  case (Cons c s)
  have "matches (map (\<lambda>c. One (Lit c)) (c # s)) m
      \<longleftrightarrow> (\<exists>x m2. m = x # m2 \<and> x = c \<and> matches (map (\<lambda>c. One (Lit c)) s) m2)"
    by (simp only: list.map matches_One_Cons atom_ok.simps)
  also have "\<dots> \<longleftrightarrow> m = c # s" using Cons.IH by auto
  finally show ?case .
qed

lemma occurs_beta: "occurs BETA_PATTERN v \<longleftrightarrow> sublist BETA_MARKER v"
  unfolding occurs_def BETA_PATTERN_def BETA_MARKER_def matches_literals sublist_def
  by auto

lemma atom_ok_Digit: "atom_ok Digit = is_digit"
  by (rule ext) simp

lemma matches_official: "matches OFFICIAL_PATTERN m \<longleftrightarrow> official_tag m"
proof
  assume "matches OFFICIAL_PATTERN m"
  then obtain d ds1 ds2 r where
    "m = CHR ''v'' # CHR ''2'' # d # CHR ''.'' # ds1 @ CHR ''.'' # ds2 @ r"
    "is_digit d" "ds1 \<noteq> []" "list_all is_digit ds1" "ds2 \<noteq> []" "list_all is_digit ds2"
    "matches [] r"
    unfolding OFFICIAL_PATTERN_def matches_One_Cons matches_Plus_Cons atom_ok.simps
    by auto
  then show "official_tag m"
    unfolding official_tag_def by auto
next
  assume "official_tag m"
  then obtain d ds1 ds2 where
    m: "m = CHR ''v'' # CHR ''2'' # d # CHR ''.'' # ds1 @ CHR ''.'' # ds2"
    and d: "is_digit d" "ds1 \<noteq> []" "list_all is_digit ds1" "ds2 \<noteq> []" "list_all is_digit ds2"
    unfolding official_tag_def by auto
  have "matches [Plus Digit] ds2"
    unfolding matches_Plus_Cons using d by (auto simp: atom_ok_Digit)
  then have "matches [One (Lit CHR ''.''), Plus Digit] (CHR ''.'' # ds2)"
    unfolding matches_One_Cons by simp
  then have "matches [Plus Digit, One (Lit CHR ''.''), Plus Digit] (ds1 @ CHR ''.'' # ds2)"
    unfolding matches_Plus_Cons [of Digit] using d by (auto simp: atom_ok_Digit)
  then show "matches OFFICIAL_PATTERN m"
    unfolding OFFICIAL_PATTERN_def m using d(1)
    by (simp add: matches_One_Cons)
qed

lemma occurs_official: "occurs OFFICIAL_PATTERN v \<longleftrightarrow> has_official_tag v"
  by (simp add: occurs_def has_official_tag_def matches_official)

text \<open>
  Claim C6, amended. A firmware-version string selects the beta artifact set exactly when
  it contains the marker \<open>odudex/krux_binaries\<close>; it selects the official artifact set
  exactly when it does not contain the marker and an official tag (\<open>v2\<close>, one digit, a dot,
  digits, a dot, digits) occurs somewhere in it; it selects neither exactly when it has
  neither. The branch on the firmware version runs the beta branch, the official branch or
  nothing accordingly.
\<close>

theorem selected_by_marker_then_tag:
  "(selected v = Beta \<longleftrightarrow> sublist BETA_MARKER v)
   \<and> (selected v = Official \<longleftrightarrow> \<not> sublist BETA_MARKER v \<and> has_official_tag v)
   \<and> (selected v = Neither \<longleftrightarrow> \<not> sublist BETA_MARKER v \<and> \<not> has_official_tag v)
   \<and> firmware_branch env args =
       (case selected (text_of (firmware_version args)) of
          Beta \<Rightarrow> beta_branch env args
        | Official \<Rightarrow> official_branch env args
        | Neither \<Rightarrow> ret ())"
  by (simp add: selected_simps re_findall_occurs re_findall_empty occurs_beta occurs_official
      firmware_branch_selected)

text \<open>
  Claim C6 as stated fails: the string \<open>odudex/krux_binaries/v24.03.0\<close> matches the
  pattern of the official tags (\<open>re.findall\<close> returns \<open>v24.03.0\<close>) and yet selects the
  beta artifact set, because the marker is looked for first.
\<close>

theorem tag_with_marker_selects_beta:
  "re_findall OFFICIAL_PATTERN ''odudex/krux_binaries/v24.03.0'' = [''v24.03.0'']
   \<and> selected ''odudex/krux_binaries/v24.03.0'' = Beta"
  by code_simp

section \<open>The flash targets after extraction\<close>

lemma flash_target_names:
  "KBOOT_NAME args =
     destdir args @ ''/krux-'' @ text_of (firmware_version args) @ ''//maixpy_''
       @ text_of (firmware_device args) @ ''/kboot.kfpkg''"
  "FIRMWARE_NAME args =
     destdir args @ ''/krux-'' @ text_of (firmware_version args) @ ''//maixpy_''
       @ text_of (firmware_device args) @ ''/firmware.bin''"
  by (simp_all add: KBOOT_NAME_def FIRMWARE_NAME_def)

text \<open>
  Claim C5 against the code: for the destination directory \<open>/tmp\<close>, the version
  \<open>v24.03.0\<close> and the device \<open>amigo\<close>, the two targets the orchestrator builds have a
  doubled separator before \<open>maixpy_amigo\<close>, and so differ from the paths of the claim.
\<close>

theorem flash_target_double_separator:
  "KBOOT_NAME demo_args = ''/tmp/krux-v24.03.0//maixpy_amigo/kboot.kfpkg''
   \<and> KBOOT_NAME demo_args \<noteq> ''/tmp/krux-v24.03.0/maixpy_amigo/kboot.kfpkg''
   \<and> FIRMWARE_NAME demo_args = ''/tmp/krux-v24.03.0//maixpy_amigo/firmware.bin''
   \<and> FIRMWARE_NAME demo_args \<noteq> ''/tmp/krux-v24.03.0/maixpy_amigo/firmware.bin''"
  by (simp add: flash_target_names demo_args_def)

section \<open>Listing the devices\<close>

lemma block_prints:
  "block (map (\<lambda>x. print (f x)) xs) w = (Inr (), w\<lparr>trace := trace w @ map (\<lambda>x. Print (f x)) xs\<rparr>)"
  by (induction xs arbitrary: w) (simp_all add: ret_def seq_def bnd_def print_def emit_def)

text \<open>
  Claim C8. Listing the devices prints, one line each and in the order of the table, the
  entries of \<open>VALID_DEVICES\<close> without the first one; nothing is added and nothing else is
  left out. It cannot fail, and changes nothing but the output. With the option for it
  (and neither of the two options looked at before it), on a supported platform, this is
  the whole run.
\<close>

theorem list_devices_skips_first:
  "list_devices env w =
     (Inr (), w\<lparr>trace := trace w
                 @ map (\<lambda>device. Print (''* '' @ device)) (drop 1 (VALID_DEVICES env))\<rparr>)
   \<and> (VALID_DEVICES env = unset # devices \<longrightarrow>
        list_devices env w =
          (Inr (), w\<lparr>trace := trace w @ map (\<lambda>device. Print (''* '' @ device)) devices\<rparr>))
   \<and> (platform env \<in> set supported_platforms \<and> \<not> version args
        \<and> \<not> available_firmwares args \<and> available_devices args \<longrightarrow>
        run env args d answers =
          (Inr (), \<lparr>disk = d, stdin = answers,
                    trace = map (\<lambda>device. Print (''* '' @ device))
                              (drop 1 (VALID_DEVICES env))\<rparr>))"
proof -
  have listing: "list_devices env w =
     (Inr (), w\<lparr>trace := trace w
                 @ map (\<lambda>device. Print (''* '' @ device)) (drop 1 (VALID_DEVICES env))\<rparr>)" for w
    by (simp add: list_devices_def slice_def block_prints)
  have "run env args d answers =
          (Inr (), \<lparr>disk = d, stdin = answers,
                    trace = map (\<lambda>device. Print (''* '' @ device))
                              (drop 1 (VALID_DEVICES env))\<rparr>)"
    if "platform env \<in> set supported_platforms \<and> \<not> version args
        \<and> \<not> available_firmwares args \<and> available_devices args"
    using that by (simp add: run_def krux_installer_def main_def listing)
  with listing [of w] show ?thesis by auto
qed

theorem list_devices_skips_first_witness:
  "VALID_DEVICES (demo_env True True) = ''select a new one'' # [''m5stickv'', ''amigo'', ''dock'']
   \<and> platform (demo_env True True) \<in> set supported_platforms
   \<and> available_devices (demo_args\<lparr>available_devices := True\<rparr>)
   \<and> run (demo_env True True) (demo_args\<lparr>available_devices := True\<rparr>) [] [] =
        (Inr (), \<lparr>disk = [], stdin = [],
                  trace = [Print ''* m5stickv'', Print ''* amigo'', Print ''* dock'']\<rparr>)
   \<and> list_devices (demo_env True True) \<lparr>disk = [], stdin = [], trace = []\<rparr> =
        (Inr (), \<lparr>disk = [], stdin = [],
                  trace = [Print ''* m5stickv'', Print ''* amigo'', Print ''* dock'']\<rparr>)"
proof -
  let ?args = "demo_args\<lparr>available_devices := True\<rparr>"
  have table: "VALID_DEVICES (demo_env True True)
      = ''select a new one'' # [''m5stickv'', ''amigo'', ''dock'']"
    by (simp add: demo_env_def)
  have hyps: "platform (demo_env True True) \<in> set supported_platforms \<and> \<not> version ?args
        \<and> \<not> available_firmwares ?args \<and> available_devices ?args"
    by (simp add: demo_env_def demo_args_def supported_platforms_def)
  note inst = list_devices_skips_first [of "demo_env True True"
      "\<lparr>disk = [], stdin = [], trace = []\<rparr>" "''select a new one''"
      "[''m5stickv'', ''amigo'', ''dock'']" ?args "[]" "[]"]
  from inst table have a: "list_devices (demo_env True True) \<lparr>disk = [], stdin = [], trace = []\<rparr> =
        (Inr (), \<lparr>disk = [], stdin = [],
                  trace = [Print ''* m5stickv'', Print ''* amigo'', Print ''* dock'']\<rparr>)"
    by simp
  from inst hyps table have b: "run (demo_env True True) ?args [] [] =
        (Inr (), \<lparr>disk = [], stdin = [],
                  trace = [Print ''* m5stickv'', Print ''* amigo'', Print ''* dock'']\<rparr>)"
    by simp
  from table hyps a b show ?thesis by simp
qed

section \<open>The device catalog and the firmware attribute\<close>

text \<open>
  Claim C4. The lookup gives the vendor-ID class \<open>0403\<close> and the codename \<open>goE\<close> for
  amigo, amigo_tft, amigo_ips, m5stickv, bit and cube, \<open>7523\<close> and \<open>dan\<close> for dock, \<open>7523\<close>
  and \<open>goE\<close> for yahboom, and rejects every other identifier instead of returning a value.
\<close>

theorem device_lookup_table:
  "device_lookup ''amigo'' = Inr (''0403'', ''goE'')
   \<and> device_lookup ''amigo_tft'' = Inr (''0403'', ''goE'')
   \<and> device_lookup ''amigo_ips'' = Inr (''0403'', ''goE'')
   \<and> device_lookup ''m5stickv'' = Inr (''0403'', ''goE'')
   \<and> device_lookup ''bit'' = Inr (''0403'', ''goE'')
   \<and> device_lookup ''cube'' = Inr (''0403'', ''goE'')
   \<and> device_lookup ''dock'' = Inr (''7523'', ''dan'')
   \<and> device_lookup ''yahboom'' = Inr (''7523'', ''goE'')
   \<and> (device \<notin> set DEVICES \<longrightarrow>
        device_lookup device = Inl (UnsupportedDeviceError (''Device not implemented: '' @ device)))"
  by (simp add: device_lookup_def usb_vendor_id_def board_codename_def DEVICES_def)

theorem device_lookup_table_witness:
  "''mock'' \<notin> set DEVICES
   \<and> device_lookup ''mock'' = Inl (UnsupportedDeviceError ''Device not implemented: mock'')"
proof -
  have "''mock'' \<notin> set DEVICES" by (simp add: DEVICES_def)
  with device_lookup_table [of "''mock''"] show ?thesis by simp
qed

lemma assign_all_exists:
  "\<forall>p. firmware b = Some p \<longrightarrow> exists p \<Longrightarrow>
   \<forall>p. firmware (assign_all exists b vs) = Some p \<longrightarrow> exists p"
proof (induction vs arbitrary: b)
  case Nil
  then show ?case by simp
next
  case (Cons v vs)
  show ?case
  proof (cases "exists v")
    case True
    then have step: "assign_all exists b (v # vs) = assign_all exists (b\<lparr>firmware := Some v\<rparr>) vs"
      by (simp add: set_firmware_def)
    have "\<forall>p. firmware (b\<lparr>firmware := Some v\<rparr>) = Some p \<longrightarrow> exists p"
      using True by simp
    then have "\<forall>p. firmware (assign_all exists (b\<lparr>firmware := Some v\<rparr>) vs) = Some p \<longrightarrow> exists p"
      by (rule Cons.IH)
    with step show ?thesis by simp
  next
    case False
    then have "assign_all exists b (v # vs) = assign_all exists b vs"
      by (simp add: set_firmware_def)
    with Cons.IH [OF Cons.prems] show ?thesis by simp
  qed
qed

text \<open>
  Claim C10. Assigning a path that does not exist to the firmware attribute raises
  \<open>ValueError("File do not exist: <path>")\<close>; assigning one that exists leaves the flasher
  holding it; so whatever assignments are attempted on a new flasher, the path it holds, if
  any, exists.
\<close>

theorem firmware_must_exist:
  "(\<not> exists v \<longrightarrow> set_firmware exists b v = Inl (ValueError (''File do not exist: '' @ v)))
   \<and> (exists v \<longrightarrow> set_firmware exists b v = Inr (b\<lparr>firmware := Some v\<rparr>))
   \<and> (firmware (assign_all exists BaseFlasher vs) = Some q \<longrightarrow> exists q)"
proof -
  have "firmware (assign_all exists BaseFlasher vs) = Some q \<longrightarrow> exists q"
    using assign_all_exists [of BaseFlasher exists vs] by (simp add: BaseFlasher_def)
  then show ?thesis by (simp add: set_firmware_def)
qed

theorem firmware_must_exist_witness:
  "\<not> (\<lambda>p. p = ''kboot.kfpkg'') ''mock/test/kboot.kfpkg''
   \<and> set_firmware (\<lambda>p. p = ''kboot.kfpkg'') BaseFlasher ''mock/test/kboot.kfpkg''
       = Inl (ValueError ''File do not exist: mock/test/kboot.kfpkg'')
   \<and> set_firmware (\<lambda>p. p = ''kboot.kfpkg'') BaseFlasher ''kboot.kfpkg''
       = Inr (BaseFlasher\<lparr>firmware := Some ''kboot.kfpkg''\<rparr>)
   \<and> firmware (assign_all (\<lambda>p. p = ''kboot.kfpkg'') BaseFlasher
        [''kboot.kfpkg'', ''mock/test/kboot.kfpkg'']) = Some ''kboot.kfpkg''"
proof -
  let ?ex = "\<lambda>p. p = ''kboot.kfpkg''"
  have a: "\<not> ?ex ''mock/test/kboot.kfpkg''" by simp
  have b: "?ex ''kboot.kfpkg''" by simp
  have c: "firmware (assign_all ?ex BaseFlasher [''kboot.kfpkg'', ''mock/test/kboot.kfpkg''])
      = Some ''kboot.kfpkg''"
    by (simp add: set_firmware_def BaseFlasher_def)
  from firmware_must_exist [of ?ex "''mock/test/kboot.kfpkg''" BaseFlasher]
    firmware_must_exist [of ?ex "''kboot.kfpkg''" BaseFlasher
      "[''kboot.kfpkg'', ''mock/test/kboot.kfpkg'']" "''kboot.kfpkg''"] a b c
  show ?thesis by simp
qed

section \<open>Fetching only what is missing or asked for\<close>

lemmas io_defs = seq_def bnd_def ret_def print_def emit_def input_def os_path_exists_def
  call_download_def

lemma snd_seq_ret: "snd (seq m (ret ()) w) = snd (m w)"
  by (simp add: seq_def bnd_def ret_def split: prod.splits sum.splits)

lemma added_append: "trace w' = trace w @ ev \<Longrightarrow> added w w' = ev"
  by (simp add: added_def)

text \<open>
  The shape shared by the six blocks: two lines printed, the existence check, then the
  download when the file is absent, or the question and the download when the answer is
  \<open>y\<close>.
\<close>

lemma policy_downloads:
  assumes dl: "\<And>w. \<exists>ev. trace (snd (dl w)) = trace w @ ev \<and> filter is_download ev = [Download rq]"
  shows "filter is_download (added w (snd (
           seq (print m1)
          (seq (print m2)
          (bnd (os_path_exists env p) (\<lambda>present.
             if \<not> present then dl
             else bnd (input q) (\<lambda>answer. if answer = ''y'' then dl else ret k)))) w))) =
         (if \<not> path_exists env (disk w) p \<or> (\<exists>rest. stdin w = ''y'' # rest)
          then [Download rq] else [])"
proof (cases "path_exists env (disk w) p")
  case False
  let ?w1 = "w\<lparr>trace := trace w @ [Print m1] @ [Print m2]\<rparr>"
  from dl [of ?w1] obtain ev where
    ev: "trace (snd (dl ?w1)) = trace w @ ([Print m1, Print m2] @ ev)"
      "filter is_download ev = [Download rq]"
    by auto
  from added_append [OF ev(1)] ev(2) False show ?thesis by (simp add: io_defs)
next
  case True
  show ?thesis
  proof (cases "stdin w")
    case Nil
    with True show ?thesis by (simp add: io_defs added_def)
  next
    case (Cons answer rest)
    show ?thesis
    proof (cases "answer = ''y''")
      case False
      with True Cons show ?thesis by (simp add: io_defs added_def)
    next
      case y: True
      let ?w1 = "w\<lparr>trace := trace w @ [Print m1] @ [Print m2], stdin := rest,
                    trace := (trace w @ [Print m1] @ [Print m2]) @ [Input q]\<rparr>"
      from dl [of ?w1] obtain ev where
        ev: "trace (snd (dl ?w1)) = trace w @ ([Print m1, Print m2, Input q] @ ev)"
          "filter is_download ev = [Download rq]"
        by auto
      from added_append [OF ev(1)] ev(2) True Cons y show ?thesis by (simp add: io_defs)
    qed
  qed
qed

lemma policy_keeps:
  assumes "path_exists env (disk w) p" and "\<forall>rest. stdin w \<noteq> ''y'' # rest"
  shows "disk (snd (
           seq (print m1)
          (seq (print m2)
          (bnd (os_path_exists env p) (\<lambda>present.
             if \<not> present then dl
             else bnd (input q) (\<lambda>answer. if answer = ''y'' then dl else ret k)))) w)) = disk w"
  using assms by (cases "stdin w") (simp_all add: io_defs)

lemma policy_value:
  assumes "path_exists env (disk w) p" and "stdin w = answer # rest" and "answer \<noteq> ''y''"
  shows "fst (
           seq (print m1)
          (seq (print m2)
          (bnd (os_path_exists env p) (\<lambda>present.
             if \<not> present then dl
             else bnd (input q) (\<lambda>answer. if answer = ''y'' then dl else ret k)))) w) = Inr k"
  using assms by (simp add: io_defs)

lemma download_events:
  "\<exists>ev. trace (snd (seq (print m1) (seq (print m2) (call_download env rq)) w)) = trace w @ ev
        \<and> filter is_download ev = [Download rq]"
  by (simp add: io_defs split: prod.splits)

lemma download_discarded_events:
  "\<exists>ev. trace (snd (seq (seq (print m1) (seq (print m2) (call_download env rq))) (ret ()) w))
          = trace w @ ev
        \<and> filter is_download ev = [Download rq]"
  unfolding snd_seq_ret by (rule download_events)

lemma download_beta_events:
  "\<exists>ev. trace (snd (seq (print m1) (seq (call_download env rq) (print m2)) w)) = trace w @ ev
        \<and> filter is_download ev = [Download rq]"
  by (auto simp: io_defs split: prod.splits sum.splits)

lemma artifact_path_FIRMWARE_NAME_zip:
  "artifact_path args Zip = FIRMWARE_NAME_zip args"
  "artifact_path args Sha256 = FIRMWARE_NAME_zip args @ ''.sha256.txt''"
  "artifact_path args Sig = FIRMWARE_NAME_zip args @ ''.sig''"
  "artifact_path args Pem = destdir args @ ''/selfcustody.pem''"
  "artifact_path args BetaKboot = KBOOT_NAME_beta args"
  "artifact_path args BetaBin = FIRMWARE_NAME_beta args"
  by (simp_all add: FIRMWARE_NAME_zip_def KBOOT_NAME_beta_def FIRMWARE_NAME_beta_def)

lemma ensure_downloads:
  "filter is_download (added w (snd (ensure env args a w))) =
     (if \<not> path_exists env (disk w) (artifact_path args a) \<or> (\<exists>rest. stdin w = ''y'' # rest)
      then [Download (artifact_request args a)] else [])"
proof (cases a)
  case Zip
  show ?thesis
    unfolding Zip ensure.simps snd_seq_ret artifact_path_FIRMWARE_NAME_zip artifact_request.simps
      ensure_zip_def download_zip_def
    by (rule policy_downloads) (rule download_events)
next
  case Sha256
  show ?thesis
    unfolding Sha256 ensure.simps artifact_path_FIRMWARE_NAME_zip artifact_request.simps
      ensure_sha256_def download_zip_sha256sum_def
    by (rule policy_downloads) (rule download_discarded_events)
next
  case Sig
  show ?thesis
    unfolding Sig ensure.simps artifact_path_FIRMWARE_NAME_zip artifact_request.simps
      ensure_sig_def download_zip_sig_def
    by (rule policy_downloads) (rule download_discarded_events)
next
  case Pem
  show ?thesis
    unfolding Pem ensure.simps snd_seq_ret artifact_path_FIRMWARE_NAME_zip artifact_request.simps
      ensure_pem_def download_pem_def
    by (rule policy_downloads) (rule download_events)
next
  case BetaKboot
  show ?thesis
    unfolding BetaKboot ensure.simps artifact_path_FIRMWARE_NAME_zip artifact_request.simps
      ensure_kboot_beta_def download_kboot_beta_def
    by (rule policy_downloads) (rule download_beta_events)
next
  case BetaBin
  show ?thesis
    unfolding BetaBin ensure.simps artifact_path_FIRMWARE_NAME_zip artifact_request.simps
      ensure_bin_beta_def download_bin_beta_def
    by (rule policy_downloads) (rule download_beta_events)
qed

lemma ensure_keeps:
  assumes "path_exists env (disk w) (artifact_path args a)"
    and "\<forall>rest. stdin w \<noteq> ''y'' # rest"
  shows "disk (snd (ensure env args a w)) = disk w"
proof (cases a)
  case Zip
  from assms show ?thesis
    unfolding Zip ensure.simps snd_seq_ret artifact_path_FIRMWARE_NAME_zip ensure_zip_def
    by (rule policy_keeps)
next
  case Sha256
  from assms show ?thesis
    unfolding Sha256 ensure.simps artifact_path_FIRMWARE_NAME_zip ensure_sha256_def
    by (rule policy_keeps)
next
  case Sig
  from assms show ?thesis
    unfolding Sig ensure.simps artifact_path_FIRMWARE_NAME_zip ensure_sig_def
    by (rule policy_keeps)
next
  case Pem
  from assms show ?thesis
    unfolding Pem ensure.simps snd_seq_ret artifact_path_FIRMWARE_NAME_zip ensure_pem_def
    by (rule policy_keeps)
next
  case BetaKboot
  from assms show ?thesis
    unfolding BetaKboot ensure.simps artifact_path_FIRMWARE_NAME_zip ensure_kboot_beta_def
    by (rule policy_keeps)
next
  case BetaBin
  from assms show ?thesis
    unfolding BetaBin ensure.simps artifact_path_FIRMWARE_NAME_zip ensure_bin_beta_def
    by (rule policy_keeps)
qed

lemma kept_zip:
  assumes "path_exists env (disk w) (artifact_path args Zip)"
    and "stdin w = answer # rest" and "answer \<noteq> ''y''"
  shows "fst (ensure_zip env args w) = Inr (artifact_path args Zip)"
proof -
  have k: "destdir args @ ''/krux-'' @ text_of (firmware_version args) @ ''.zip''
      = FIRMWARE_NAME_zip args"
    by (simp add: FIRMWARE_NAME_zip_def)
  from assms show ?thesis
    unfolding artifact_path_FIRMWARE_NAME_zip ensure_zip_def k
    by (rule policy_value)
qed

lemma kept_pem:
  assumes "path_exists env (disk w) (artifact_path args Pem)"
    and "stdin w = answer # rest" and "answer \<noteq> ''y''"
  shows "fst (ensure_pem env args w) = Inr (artifact_path args Pem)"
  using assms
  unfolding artifact_path_FIRMWARE_NAME_zip ensure_pem_def
  by (rule policy_value)

lemma decide_Fetch_iff:
  "(\<exists>left. decide env args a d answers = Fetch left) \<longleftrightarrow>
     \<not> path_exists env d (artifact_path args a) \<or> (\<exists>later. answers = ''y'' # later)"
  by (auto simp: decide_def split: list.splits)

lemma decide_Keep:
  "path_exists env d (artifact_path args a) \<Longrightarrow> answers = x # later \<Longrightarrow> x \<noteq> ''y'' \<Longrightarrow>
   decide env args a d answers = Keep later"
  by (simp add: decide_def)

text \<open>The shape shared by the six blocks, against the decision of the policy.\<close>

lemma policy_obeys:
  fixes env :: "'d env" and dl :: "('d, 'b) io"
  assumes dl: "\<And>w. \<exists>r ev. dl w = (r, w\<lparr>disk := snd (download env (artifact_request args a) (disk w)),
                                         trace := trace w @ ev\<rparr>)
        \<and> filter is_download ev = [Download (artifact_request args a)]
        \<and> (isl r \<longleftrightarrow> isl (fst (download env (artifact_request args a) (disk w))))"
  shows "obeys env args a
           (seq (print m1)
           (seq (print m2)
           (bnd (os_path_exists env (artifact_path args a)) (\<lambda>present.
              if \<not> present then dl
              else bnd (input q) (\<lambda>answer. if answer = ''y'' then dl else ret k)))))"
  unfolding obeys_def
proof (intro allI impI)
  fix w w' :: "'d world" and r :: "error + 'b"
  let ?B = "seq (print m1)
           (seq (print m2)
           (bnd (os_path_exists env (artifact_path args a)) (\<lambda>present.
              if \<not> present then dl
              else bnd (input q) (\<lambda>answer. if answer = ''y'' then dl else ret k))))"
  let ?rq = "artifact_request args a"
  let ?goal = "\<exists>ev. trace w' = trace w @ ev \<and>
           (case decide env args a (disk w) (stdin w) of
              Stop \<Rightarrow> filter is_download ev = [] \<and> isl r
            | Keep left \<Rightarrow>
                filter is_download ev = [] \<and> \<not> isl r \<and> disk w' = disk w \<and> stdin w' = left
            | Fetch left \<Rightarrow>
                filter is_download ev = [Download ?rq]
                \<and> disk w' = snd (download env ?rq (disk w))
                \<and> stdin w' = left
                \<and> (isl r \<longleftrightarrow> isl (fst (download env ?rq (disk w)))))"
  assume run: "?B w = (r, w')"
  show ?goal
  proof (cases "path_exists env (disk w) (artifact_path args a)")
    case False
    let ?w1 = "w\<lparr>trace := trace w @ [Print m1] @ [Print m2]\<rparr>"
    from dl [of ?w1] obtain r1 ev where
      d: "dl ?w1 = (r1, ?w1\<lparr>disk := snd (download env ?rq (disk ?w1)), trace := trace ?w1 @ ev\<rparr>)"
        "filter is_download ev = [Download ?rq]"
        "isl r1 \<longleftrightarrow> isl (fst (download env ?rq (disk ?w1)))"
      by blast
    from run False d(1) have "r = r1"
      and "w' = ?w1\<lparr>disk := snd (download env ?rq (disk ?w1)), trace := trace ?w1 @ ev\<rparr>"
      by (simp_all add: seq_def bnd_def print_def emit_def os_path_exists_def)
    with d(2,3) False have "trace w' = trace w @ ([Print m1, Print m2] @ ev)
        \<and> filter is_download ([Print m1, Print m2] @ ev) = [Download ?rq]
        \<and> disk w' = snd (download env ?rq (disk w)) \<and> stdin w' = stdin w
        \<and> (isl r \<longleftrightarrow> isl (fst (download env ?rq (disk w))))"
      by simp
    with False show ?thesis by (auto simp: decide_def)
  next
    case True
    show ?thesis
    proof (cases "stdin w")
      case Nil
      with run True have "r = Inl EOFError"
        and "w' = w\<lparr>trace := trace w @ [Print m1, Print m2, Input q]\<rparr>"
        by (simp_all add: seq_def bnd_def print_def emit_def os_path_exists_def input_def)
      then have "trace w' = trace w @ [Print m1, Print m2, Input q]
          \<and> filter is_download [Print m1, Print m2, Input q] = [] \<and> isl r"
        by simp
      with True Nil show ?thesis by (auto simp: decide_def)
    next
      case (Cons x later)
      show ?thesis
      proof (cases "x = ''y''")
        case False
        with run True Cons have "r = Inr k"
          and "w' = w\<lparr>stdin := later, trace := trace w @ [Print m1, Print m2, Input q]\<rparr>"
          by (simp_all add: seq_def bnd_def print_def emit_def os_path_exists_def input_def
              ret_def)
        then have "trace w' = trace w @ [Print m1, Print m2, Input q]
            \<and> filter is_download [Print m1, Print m2, Input q] = [] \<and> \<not> isl r
            \<and> disk w' = disk w \<and> stdin w' = later"
          by simp
        with True Cons False show ?thesis by (auto simp: decide_def)
      next
        case y: True
        let ?w1 = "w\<lparr>stdin := later, trace := trace w @ [Print m1, Print m2, Input q]\<rparr>"
        from dl [of ?w1] obtain r1 ev where
          d: "dl ?w1 = (r1, ?w1\<lparr>disk := snd (download env ?rq (disk ?w1)),
                                 trace := trace ?w1 @ ev\<rparr>)"
            "filter is_download ev = [Download ?rq]"
            "isl r1 \<longleftrightarrow> isl (fst (download env ?rq (disk ?w1)))"
          by blast
        from run True Cons y d(1) have "r = r1"
          and "w' = ?w1\<lparr>disk := snd (download env ?rq (disk ?w1)), trace := trace ?w1 @ ev\<rparr>"
          by (simp_all add: seq_def bnd_def print_def emit_def os_path_exists_def input_def)
        with d(2,3) have "trace w' = trace w @ ([Print m1, Print m2, Input q] @ ev)
            \<and> filter is_download ([Print m1, Print m2, Input q] @ ev) = [Download ?rq]
            \<and> disk w' = snd (download env ?rq (disk w)) \<and> stdin w' = later
            \<and> (isl r \<longleftrightarrow> isl (fst (download env ?rq (disk w))))"
          by simp
        with True Cons y show ?thesis by (auto simp: decide_def)
      qed
    qed
  qed
qed

lemma download_does:
  "\<exists>r ev. seq (print m1) (seq (print m2) (call_download env rq)) w
             = (r, w\<lparr>disk := snd (download env rq (disk w)), trace := trace w @ ev\<rparr>)
         \<and> filter is_download ev = [Download rq]
         \<and> (isl r \<longleftrightarrow> isl (fst (download env rq (disk w))))"
proof -
  obtain res d' where dl: "download env rq (disk w) = (res, d')" by (cases "download env rq (disk w)")
  then have "seq (print m1) (seq (print m2) (call_download env rq)) w
      = (res, w\<lparr>disk := snd (download env rq (disk w)),
                 trace := trace w @ [Print m1, Print m2, Download rq]\<rparr>)"
    by (simp add: seq_def bnd_def print_def emit_def call_download_def)
  moreover have "filter is_download [Print m1, Print m2, Download rq] = [Download rq]" by simp
  moreover have "isl res \<longleftrightarrow> isl (fst (download env rq (disk w)))" using dl by simp
  ultimately show ?thesis by blast
qed

lemma download_discarded_does:
  "\<exists>r ev. seq (seq (print m1) (seq (print m2) (call_download env rq))) (ret ()) w
             = (r, w\<lparr>disk := snd (download env rq (disk w)), trace := trace w @ ev\<rparr>)
         \<and> filter is_download ev = [Download rq]
         \<and> (isl r \<longleftrightarrow> isl (fst (download env rq (disk w))))"
proof -
  obtain res d' where dl: "download env rq (disk w) = (res, d')" by (cases "download env rq (disk w)")
  then have "\<exists>r. seq (seq (print m1) (seq (print m2) (call_download env rq))) (ret ()) w
      = (r, w\<lparr>disk := snd (download env rq (disk w)),
                 trace := trace w @ [Print m1, Print m2, Download rq]\<rparr>)
      \<and> (isl r \<longleftrightarrow> isl res)"
    by (cases res) (simp_all add: seq_def bnd_def print_def emit_def call_download_def ret_def)
  moreover have "filter is_download [Print m1, Print m2, Download rq] = [Download rq]" by simp
  moreover have "isl res \<longleftrightarrow> isl (fst (download env rq (disk w)))" using dl by simp
  ultimately show ?thesis by blast
qed

lemma download_beta_does:
  "\<exists>r ev. seq (print m1) (seq (call_download env rq) (print m2)) w
             = (r, w\<lparr>disk := snd (download env rq (disk w)), trace := trace w @ ev\<rparr>)
         \<and> filter is_download ev = [Download rq]
         \<and> (isl r \<longleftrightarrow> isl (fst (download env rq (disk w))))"
proof -
  obtain res d' where dl: "download env rq (disk w) = (res, d')" by (cases "download env rq (disk w)")
  show ?thesis
  proof (cases res)
    case (Inl e)
    with dl have "seq (print m1) (seq (call_download env rq) (print m2)) w
        = (Inl e, w\<lparr>disk := snd (download env rq (disk w)),
                     trace := trace w @ [Print m1, Download rq]\<rparr>)"
      by (simp add: seq_def bnd_def print_def emit_def call_download_def)
    moreover have "filter is_download [Print m1, Download rq] = [Download rq]" by simp
    moreover have "isl (Inl e :: error + unit) \<longleftrightarrow> isl (fst (download env rq (disk w)))"
      using dl Inl by simp
    ultimately show ?thesis by blast
  next
    case (Inr path)
    with dl have "seq (print m1) (seq (call_download env rq) (print m2)) w
        = (Inr (), w\<lparr>disk := snd (download env rq (disk w)),
                      trace := trace w @ [Print m1, Download rq, Print m2]\<rparr>)"
      by (simp add: seq_def bnd_def print_def emit_def call_download_def)
    moreover have "filter is_download [Print m1, Download rq, Print m2] = [Download rq]" by simp
    moreover have "isl (Inr () :: error + unit) \<longleftrightarrow> isl (fst (download env rq (disk w)))"
      using dl Inr by simp
    ultimately show ?thesis by blast
  qed
qed

lemma policy_obeys_at:
  fixes env :: "'d env" and dl :: "('d, 'b) io"
  assumes p: "p = artifact_path args a" and rq: "rq = artifact_request args a"
    and dl: "\<And>w. \<exists>r ev. dl w = (r, w\<lparr>disk := snd (download env rq (disk w)),
                                         trace := trace w @ ev\<rparr>)
        \<and> filter is_download ev = [Download rq]
        \<and> (isl r \<longleftrightarrow> isl (fst (download env rq (disk w))))"
  shows "obeys env args a
           (seq (print m1)
           (seq (print m2)
           (bnd (os_path_exists env p) (\<lambda>present.
              if \<not> present then dl
              else bnd (input q) (\<lambda>answer. if answer = ''y'' then dl else ret k)))))"
  unfolding p by (rule policy_obeys) (use dl rq in simp)

lemma obeys_ensure_zip: "obeys env args Zip (ensure_zip env args)"
  unfolding ensure_zip_def download_zip_def
  by (rule policy_obeys_at [OF _ _ download_does]) (simp_all add: FIRMWARE_NAME_zip_def)

lemma obeys_ensure_sha256: "obeys env args Sha256 (ensure_sha256 env args)"
  unfolding ensure_sha256_def download_zip_sha256sum_def
  by (rule policy_obeys_at [OF _ _ download_discarded_does])
     (simp_all add: FIRMWARE_NAME_zip_def)

lemma obeys_ensure_sig: "obeys env args Sig (ensure_sig env args)"
  unfolding ensure_sig_def download_zip_sig_def
  by (rule policy_obeys_at [OF _ _ download_discarded_does])
     (simp_all add: FIRMWARE_NAME_zip_def)

lemma obeys_ensure_pem: "obeys env args Pem (ensure_pem env args)"
  unfolding ensure_pem_def download_pem_def
  by (rule policy_obeys_at [OF _ _ download_does]) simp_all

lemma obeys_ensure_kboot_beta: "obeys env args BetaKboot (ensure_kboot_beta env args)"
  unfolding ensure_kboot_beta_def download_kboot_beta_def
  by (rule policy_obeys_at [OF _ _ download_beta_does]) (simp_all add: KBOOT_NAME_beta_def)

lemma obeys_ensure_bin_beta: "obeys env args BetaBin (ensure_bin_beta env args)"
  unfolding ensure_bin_beta_def download_bin_beta_def
  by (rule policy_obeys_at [OF _ _ download_beta_does]) (simp_all add: FIRMWARE_NAME_beta_def)

lemma plansD:
  "plans env args as m \<Longrightarrow> m w = (r, w') \<Longrightarrow>
   \<exists>ev. trace w' = trace w @ ev
      \<and> filter is_download ev = map Download (fst (fetch_plan env args as (disk w) (stdin w)))"
  by (simp add: plans_def)

lemma filter_none: "list_all (\<lambda>e. \<not> P e) ev \<Longrightarrow> filter P ev = []"
  by (induction ev) simp_all

lemma plans_Nil:
  assumes "emits (\<lambda>e. \<not> is_download e) m"
  shows "plans env args [] m"
  unfolding plans_def
proof (intro allI impI)
  fix w r w'
  assume "m w = (r, w')"
  from emitsD [OF assms this] obtain ev where
    "trace w' = trace w @ ev" "list_all (\<lambda>e. \<not> is_download e) ev" by blast
  then have "trace w' = trace w @ ev \<and> filter is_download ev = []"
    by (simp add: filter_none)
  then show "\<exists>ev. trace w' = trace w @ ev \<and> filter is_download ev
      = map Download (fst (fetch_plan env args [] (disk w) (stdin w)))"
    by auto
qed

lemma plans_Cons:
  fixes env :: "'d env" and m :: "('d, 'a) io" and f :: "'a \<Rightarrow> ('d, 'b) io"
  assumes m: "obeys env args a m" and f: "\<And>x. plans env args as (f x)"
  shows "plans env args (a # as) (bnd m f)"
  unfolding plans_def
proof (intro allI impI)
  fix w w' :: "'d world" and r :: "error + 'b"
  let ?rq = "artifact_request args a"
  let ?plan = "fst (fetch_plan env args (a # as) (disk w) (stdin w))"
  assume run: "bnd m f w = (r, w')"
  then show "\<exists>ev. trace w' = trace w @ ev \<and> filter is_download ev = map Download ?plan"
  proof (cases rule: bndE)
    case (failed e)
    from m [unfolded obeys_def, rule_format, OF failed(1)] obtain ev where
      tr: "trace w' = trace w @ ev"
      and dec: "case decide env args a (disk w) (stdin w) of
              Stop \<Rightarrow> filter is_download ev = [] \<and> isl (Inl e :: error + 'a)
            | Keep left \<Rightarrow>
                filter is_download ev = [] \<and> \<not> isl (Inl e :: error + 'a) \<and> disk w' = disk w
                \<and> stdin w' = left
            | Fetch left \<Rightarrow>
                filter is_download ev = [Download ?rq]
                \<and> disk w' = snd (download env ?rq (disk w))
                \<and> stdin w' = left
                \<and> (isl (Inl e :: error + 'a) \<longleftrightarrow> isl (fst (download env ?rq (disk w))))"
      by blast
    from dec have "filter is_download ev = map Download ?plan"
      by (cases "decide env args a (disk w) (stdin w)";
          cases "download env ?rq (disk w)"; cases "fst (download env ?rq (disk w))")
         auto
    with tr show ?thesis by blast
  next
    case (passed x w1)
    from m [unfolded obeys_def, rule_format, OF passed(1)] obtain ev1 where
      tr1: "trace w1 = trace w @ ev1"
      and dec: "case decide env args a (disk w) (stdin w) of
              Stop \<Rightarrow> filter is_download ev1 = [] \<and> isl (Inr x :: error + 'a)
            | Keep left \<Rightarrow>
                filter is_download ev1 = [] \<and> \<not> isl (Inr x :: error + 'a) \<and> disk w1 = disk w
                \<and> stdin w1 = left
            | Fetch left \<Rightarrow>
                filter is_download ev1 = [Download ?rq]
                \<and> disk w1 = snd (download env ?rq (disk w))
                \<and> stdin w1 = left
                \<and> (isl (Inr x :: error + 'a) \<longleftrightarrow> isl (fst (download env ?rq (disk w))))"
      by blast
    from plansD [OF f passed(2)] obtain ev2 where
      tr2: "trace w' = trace w1 @ ev2"
      and dl2: "filter is_download ev2
          = map Download (fst (fetch_plan env args as (disk w1) (stdin w1)))"
      by blast
    from dec dl2 have "filter is_download (ev1 @ ev2) = map Download ?plan"
      by (cases "decide env args a (disk w) (stdin w)";
          cases "download env ?rq (disk w)"; cases "fst (download env ?rq (disk w))")
         auto
    moreover from tr1 tr2 have "trace w' = trace w @ (ev1 @ ev2)" by simp
    ultimately show ?thesis by blast
  qed
qed

lemma plans_then_quiet:
  fixes env :: "'d env" and m :: "('d, 'a) io" and f :: "'a \<Rightarrow> ('d, 'b) io"
  assumes m: "plans env args as m" and f: "\<And>x. emits (\<lambda>e. \<not> is_download e) (f x)"
  shows "plans env args as (bnd m f)"
  unfolding plans_def
proof (intro allI impI)
  fix w w' :: "'d world" and r :: "error + 'b"
  let ?dls = "map Download (fst (fetch_plan env args as (disk w) (stdin w)))"
  assume "bnd m f w = (r, w')"
  then show "\<exists>ev. trace w' = trace w @ ev \<and> filter is_download ev = ?dls"
  proof (cases rule: bndE)
    case (failed e)
    from plansD [OF m failed(1)] show ?thesis .
  next
    case (passed x w1)
    from plansD [OF m passed(1)] obtain ev1 where
      ev1: "trace w1 = trace w @ ev1" "filter is_download ev1 = ?dls" by blast
    from emitsD [OF f passed(2)] obtain ev2 where
      ev2: "trace w' = trace w1 @ ev2" "list_all (\<lambda>e. \<not> is_download e) ev2" by blast
    from ev1 ev2 have "trace w' = trace w @ (ev1 @ ev2)
        \<and> filter is_download (ev1 @ ev2) = ?dls"
      by (simp add: filter_none)
    then show ?thesis by blast
  qed
qed

lemma emits_verify_sha256sum:
  assumes "\<And>msg. P (Print msg)" and "\<And>res. P (VerifySha256 f res)"
  shows "emits P (verify_sha256sum env f)"
  unfolding emits_def verify_sha256sum_def seq_def bnd_def print_def emit_def raise_def ret_def
  using assms by (auto split: sum.splits prod.splits)

lemma emits_verify_sig:
  assumes "\<And>msg. P (Print msg)" and "\<And>res. P (VerifySig f p res)"
  shows "emits P (verify_sig env f p)"
  unfolding emits_def verify_sig_def seq_def bnd_def print_def emit_def raise_def ret_def
  using assms by (auto split: sum.splits prod.splits)

lemma emits_verify_downloaded:
  assumes "\<And>msg. P (Print msg)" and "\<And>res. P (VerifySha256 z res)"
    and "\<And>res. P (VerifySig z p res)"
  shows "emits P (verify_downloaded env z p)"
  unfolding verify_downloaded_def
  by (intro emits_bnd emits_seq emits_if emits_raise emits_ret emits_print
      emits_verify_sha256sum emits_verify_sig assms)

lemma plans_download_and_verify:
  "plans env args [Zip, Sha256, Sig, Pem] (download_and_verify env args)"
  unfolding download_and_verify_def seq_def
  by (intro plans_Cons plans_Nil obeys_ensure_zip obeys_ensure_sha256 obeys_ensure_sig
      obeys_ensure_pem emits_verify_downloaded) simp_all

lemma plans_official_branch:
  "plans env args [Zip, Sha256, Sig, Pem] (official_branch env args)"
  unfolding official_branch_def
  by (auto intro!: plans_then_quiet plans_download_and_verify emits_seq emits_print
      emits_unzip emits_input emits_flash)

lemma plans_beta_branch:
  "plans env args (if flash args then [BetaKboot] else [BetaBin]) (beta_branch env args)"
  unfolding beta_branch_def seq_def
  by (auto intro!: plans_Cons plans_Nil obeys_ensure_kboot_beta obeys_ensure_bin_beta
      emits_bnd emits_print emits_input emits_flash)

lemma plans_firmware_branch: "plans env args (needed args) (firmware_branch env args)"
  unfolding firmware_branch_selected needed_def
  by (cases "selected (text_of (firmware_version args))")
     (use plans_beta_branch [of env args] in
       \<open>auto intro: plans_official_branch plans_Nil emits_ret\<close>)

lemma run_downloads:
  assumes "platform env \<in> set supported_platforms" "\<not> version args"
    "\<not> available_firmwares args" "\<not> available_devices args" "\<not> wipe args"
    "truthy (firmware_device args)" "truthy (firmware_version args)"
  shows "filter is_download (trace (snd (run env args d answers)))
           = map Download (fst (fetch_plan env args (needed args) d answers))"
proof -
  let ?w = "\<lparr>disk = d, stdin = answers, trace = []\<rparr>"
  from assms have "run env args d answers = firmware_branch env args ?w"
    by (simp add: run_def krux_installer_def main_def)
  moreover obtain r w' where "firmware_branch env args ?w = (r, w')"
    by (cases "firmware_branch env args ?w")
  ultimately show ?thesis
    using plansD [OF plans_firmware_branch, of env args ?w r w'] by auto
qed

lemma download_and_verify_downloads:
  "filter is_download (added w (snd (download_and_verify env args w)))
     = map Download (fst (fetch_plan env args [Zip, Sha256, Sig, Pem] (disk w) (stdin w)))"
proof -
  obtain r w' where "download_and_verify env args w = (r, w')"
    by (cases "download_and_verify env args w")
  with plansD [OF plans_download_and_verify this] show ?thesis
    by (auto simp: added_def)
qed

lemma emits_weaken: "emits P m \<Longrightarrow> (\<And>e. P e \<Longrightarrow> Q e) \<Longrightarrow> emits Q m"
  unfolding emits_def by (meson list.pred_mono_strong)

lemma fetching_cases:
  "fetching e \<Longrightarrow> (\<exists>msg. e = Print msg) \<or> (\<exists>q. e = Input q) \<or> (\<exists>rq. e = Download rq)"
  by (cases e) simp_all

text \<open>The archive that is verified is the one the first block has settled on.\<close>

lemma download_and_verify_verifies:
  fixes env :: "'d env"
  assumes run: "download_and_verify env args w = (r, w')"
    and zip: "fst (ensure_zip env args w) = Inr zipd"
    and ev: "VerifySha256 z res \<in> set (added w w') \<or> VerifySig z p res' \<in> set (added w w')"
  shows "z = zipd"
proof -
  let ?Q = "\<lambda>e. fetching e \<or> (\<exists>res. e = VerifySha256 zipd res)
      \<or> (\<exists>p res. e = VerifySig zipd p res)"
  have rest: "emits ?Q
      (seq (ensure_sha256 env args)
      (seq (ensure_sig env args)
      (bnd (ensure_pem env args) (\<lambda>pemfile. verify_downloaded env zipd pemfile))))"
    by (intro emits_seq emits_bnd emits_verify_downloaded
        emits_weaken [OF emits_ensure_sha256] emits_weaken [OF emits_ensure_sig]
        emits_weaken [OF emits_ensure_pem]) auto
  from run [unfolded download_and_verify_def] have "\<exists>ev. trace w' = trace w @ ev \<and> list_all ?Q ev"
  proof (cases rule: bndE)
    case (failed e)
    with zip show ?thesis by simp
  next
    case (passed x w1)
    with zip have x: "x = zipd" by simp
    from emitsD [OF emits_ensure_zip passed(1)] obtain ev1 where
      ev1: "trace w1 = trace w @ ev1" "list_all fetching ev1" by blast
    from emitsD [OF rest passed(2) [unfolded x]] obtain ev2 where
      ev2: "trace w' = trace w1 @ ev2" "list_all ?Q ev2" by blast
    from ev1(2) have "list_all ?Q ev1" by (induction ev1) auto
    with ev1(1) ev2 have "trace w' = trace w @ (ev1 @ ev2) \<and> list_all ?Q (ev1 @ ev2)" by simp
    then show ?thesis by blast
  qed
  then obtain evs where evs: "trace w' = trace w @ evs" "list_all ?Q evs" by blast
  then have "added w w' = evs" by (simp add: added_def)
  with ev evs(2) show ?thesis by (auto simp: list_all_iff)
qed

text \<open>
  Claim C7. The orchestrator calls a downloader exactly as the policy says: an artifact is
  fetched when its file is absent at the artifact's path or the line read from the user is
  \<open>y\<close>, and not otherwise. This holds of \<open>download_and_verify\<close> for the archive, the
  digest, the signature and the certificate in turn, each decided on the disk and the
  answers the blocks before it have left; it holds of every run on a firmware version, for
  the artifacts its version selects; and it holds of each of the six blocks alone. When a
  file exists and the user does not answer \<open>y\<close> the disk is left as it was and the path of
  the existing file is the value the later steps work with: the archive kept is the
  archive verified.
\<close>

theorem download_iff_absent_or_asked:
  "((\<exists>left. decide env args a d answers = Fetch left) \<longleftrightarrow>
       \<not> path_exists env d (artifact_path args a) \<or> (\<exists>later. answers = ''y'' # later))
   \<and> filter is_download (added w (snd (download_and_verify env args w)))
       = map Download (fst (fetch_plan env args [Zip, Sha256, Sig, Pem] (disk w) (stdin w)))
   \<and> (platform env \<in> set supported_platforms \<and> \<not> version args
        \<and> \<not> available_firmwares args \<and> \<not> available_devices args \<and> \<not> wipe args
        \<and> truthy (firmware_device args) \<and> truthy (firmware_version args) \<longrightarrow>
        filter is_download (trace (snd (run env args d answers)))
          = map Download (fst (fetch_plan env args (needed args) d answers)))
   \<and> filter is_download (added w (snd (ensure env args a w))) =
       (if \<not> path_exists env (disk w) (artifact_path args a) \<or> (\<exists>rest. stdin w = ''y'' # rest)
        then [Download (artifact_request args a)] else [])
   \<and> (path_exists env (disk w) (artifact_path args a) \<and> (\<forall>rest. stdin w \<noteq> ''y'' # rest) \<longrightarrow>
        disk (snd (ensure env args a w)) = disk w)
   \<and> (path_exists env (disk w) (artifact_path args Zip) \<and> stdin w = answer # rest
        \<and> answer \<noteq> ''y'' \<longrightarrow>
        fst (ensure_zip env args w) = Inr (artifact_path args Zip)
        \<and> (\<forall>z res. VerifySha256 z res \<in> set (added w (snd (download_and_verify env args w)))
              \<longrightarrow> z = artifact_path args Zip))
   \<and> (path_exists env (disk w) (artifact_path args Pem) \<and> stdin w = answer # rest
        \<and> answer \<noteq> ''y'' \<longrightarrow>
        fst (ensure_pem env args w) = Inr (artifact_path args Pem))"
proof -
  have used: "\<forall>z res. VerifySha256 z res \<in> set (added w (snd (download_and_verify env args w)))
              \<longrightarrow> z = artifact_path args Zip"
    if "path_exists env (disk w) (artifact_path args Zip) \<and> stdin w = answer # rest
        \<and> answer \<noteq> ''y''"
  proof (intro allI impI)
    fix z res
    assume v: "VerifySha256 z res \<in> set (added w (snd (download_and_verify env args w)))"
    from that have k: "fst (ensure_zip env args w) = Inr (artifact_path args Zip)"
      by (simp add: kept_zip)
    have "download_and_verify env args w
        = (fst (download_and_verify env args w), snd (download_and_verify env args w))"
      by simp
    from download_and_verify_verifies [OF this k] v show "z = artifact_path args Zip"
      by blast
  qed
  show ?thesis
    using decide_Fetch_iff [of env args a d answers]
      download_and_verify_downloads [of w env args]
      run_downloads [of env args d answers]
      ensure_downloads [of w env args a] ensure_keeps [of env w args a]
      kept_zip [of env w args answer rest] kept_pem [of env w args answer rest] used
    by blast
qed

theorem download_iff_absent_or_asked_witness:
  "platform (demo_env True True) \<in> set supported_platforms
   \<and> truthy (firmware_device demo_args) \<and> truthy (firmware_version demo_args)
   \<and> filter is_download (trace (snd (run (demo_env True True) demo_args
         [''/tmp/krux-v24.03.0.zip'', ''/tmp/krux-v24.03.0.zip.sha256.txt'',
          ''/tmp/krux-v24.03.0.zip.sig'', ''/tmp/selfcustody.pem'']
         [''n'', ''n'', ''n'', ''n'', '''']))) = []
   \<and> filter is_download (trace (snd (run (demo_env True True) demo_args [] ['''']))) =
       [Download (ZipDownloader ''v24.03.0'' ''/tmp''),
        Download (Sha256Downloader ''v24.03.0'' ''/tmp''),
        Download (SigDownloader ''v24.03.0'' ''/tmp''),
        Download (PemDownloader ''/tmp'')]
   \<and> path_exists (demo_env True True) [''/tmp/krux-v24.03.0.zip'', ''/tmp/selfcustody.pem'']
       (artifact_path demo_args Zip)
   \<and> filter is_download
       (added \<lparr>disk = [''/tmp/krux-v24.03.0.zip'', ''/tmp/selfcustody.pem''], stdin = [''n''], trace = []\<rparr>
          (snd (ensure (demo_env True True) demo_args Zip
             \<lparr>disk = [''/tmp/krux-v24.03.0.zip'', ''/tmp/selfcustody.pem''], stdin = [''n''], trace = []\<rparr>))) = []
   \<and> disk (snd (ensure (demo_env True True) demo_args Zip
             \<lparr>disk = [''/tmp/krux-v24.03.0.zip'', ''/tmp/selfcustody.pem''], stdin = [''n''], trace = []\<rparr>))
       = [''/tmp/krux-v24.03.0.zip'', ''/tmp/selfcustody.pem'']
   \<and> fst (ensure_zip (demo_env True True) demo_args
             \<lparr>disk = [''/tmp/krux-v24.03.0.zip'', ''/tmp/selfcustody.pem''], stdin = [''n''], trace = []\<rparr>)
       = Inr ''/tmp/krux-v24.03.0.zip''
   \<and> fst (ensure_pem (demo_env True True) demo_args
             \<lparr>disk = [''/tmp/krux-v24.03.0.zip'', ''/tmp/selfcustody.pem''], stdin = [''n''], trace = []\<rparr>)
       = Inr ''/tmp/selfcustody.pem''
   \<and> filter is_download
       (added \<lparr>disk = [], stdin = [], trace = []\<rparr>
          (snd (ensure (demo_env True True) demo_args Zip \<lparr>disk = [], stdin = [], trace = []\<rparr>)))
       = [Download (ZipDownloader ''v24.03.0'' ''/tmp'')]"
proof -
  let ?env = "demo_env True True"
  let ?full = "[''/tmp/krux-v24.03.0.zip'', ''/tmp/krux-v24.03.0.zip.sha256.txt'',
          ''/tmp/krux-v24.03.0.zip.sig'', ''/tmp/selfcustody.pem'']"
  let ?no = "[''n'', ''n'', ''n'', ''n'', '''']"
  let ?w = "\<lparr>disk = [''/tmp/krux-v24.03.0.zip'', ''/tmp/selfcustody.pem''], stdin = [''n''],
             trace = []\<rparr>"
  let ?fresh = "\<lparr>disk = [] :: string list, stdin = [], trace = []\<rparr>"
  have hyps: "platform ?env \<in> set supported_platforms \<and> \<not> version demo_args
        \<and> \<not> available_firmwares demo_args \<and> \<not> available_devices demo_args
        \<and> \<not> wipe demo_args
        \<and> truthy (firmware_device demo_args) \<and> truthy (firmware_version demo_args)"
    by (simp add: demo_env_def demo_args_def supported_platforms_def)
  have kept_plan: "fst (fetch_plan ?env demo_args (needed demo_args) ?full ?no) = []"
    by code_simp
  have fetched_plan: "fst (fetch_plan ?env demo_args (needed demo_args) [] ['''']) =
       [ZipDownloader ''v24.03.0'' ''/tmp'', Sha256Downloader ''v24.03.0'' ''/tmp'',
        SigDownloader ''v24.03.0'' ''/tmp'', PemDownloader ''/tmp'']"
    by code_simp
  from download_iff_absent_or_asked [of ?env demo_args _ ?full ?no] hyps kept_plan
  have run_kept: "filter is_download (trace (snd (run ?env demo_args ?full ?no))) = []"
    by simp
  from download_iff_absent_or_asked [of ?env demo_args _ "[]" "['''']"] hyps fetched_plan
  have run_fetched: "filter is_download (trace (snd (run ?env demo_args [] ['''']))) =
       [Download (ZipDownloader ''v24.03.0'' ''/tmp''),
        Download (Sha256Downloader ''v24.03.0'' ''/tmp''),
        Download (SigDownloader ''v24.03.0'' ''/tmp''),
        Download (PemDownloader ''/tmp'')]"
    by simp
  have p: "artifact_path demo_args Zip = ''/tmp/krux-v24.03.0.zip''"
    "artifact_path demo_args Pem = ''/tmp/selfcustody.pem''"
    "artifact_request demo_args Zip = ZipDownloader ''v24.03.0'' ''/tmp''"
    by (simp_all add: demo_args_def)
  have e: "path_exists ?env = (\<lambda>d p. p \<in> set d)"
    by (simp add: demo_env_def)
  have zip: "path_exists ?env (disk ?w) (artifact_path demo_args Zip)"
    unfolding p e by simp
  have pem: "path_exists ?env (disk ?w) (artifact_path demo_args Pem)"
    unfolding p e by simp
  have no: "stdin ?w = ''n'' # []" "''n'' \<noteq> ''y''" "\<forall>rest. stdin ?w \<noteq> ''y'' # rest"
    by simp_all
  note here = zip pem no
  have absent: "\<not> path_exists ?env (disk ?fresh) (artifact_path demo_args Zip)"
    unfolding p e by simp
  note kept = download_iff_absent_or_asked [where env = ?env and args = demo_args and a = Zip
      and w = ?w and answer = "''n''" and rest = "[]"]
  note fetched = download_iff_absent_or_asked [where env = ?env and args = demo_args
      and a = Zip and w = ?fresh]
  from kept here have 1: "filter is_download (added ?w (snd (ensure ?env demo_args Zip ?w))) = []"
    by auto
  from kept here have 2: "disk (snd (ensure ?env demo_args Zip ?w)) = disk ?w"
    by blast
  from kept here have 3: "fst (ensure_zip ?env demo_args ?w) = Inr (artifact_path demo_args Zip)"
    by blast
  from kept here have 4: "fst (ensure_pem ?env demo_args ?w) = Inr (artifact_path demo_args Pem)"
    by blast
  from fetched absent have 5: "filter is_download (added ?fresh (snd (ensure ?env demo_args Zip ?fresh)))
      = [Download (artifact_request demo_args Zip)]"
    by auto
  from hyps run_kept run_fetched here(1) 1 2 3 4 5 show ?thesis
    unfolding p by simp
qed

end
